theory Spec2Isabelle
  imports Complex_Main
begin

section \<open>Data model\<close>

text \<open>
  The relational store of gophermart holds two tables that matter here: \<^verbatim>\<open>orders\<close>
  and \<^verbatim>\<open>balance_transactions\<close>. A row of \<^verbatim>\<open>orders\<close> is the Go struct
  \<^verbatim>\<open>models.Order\<close> as the repository scans it (id, order_number, user_id, status);
  the status column is free text, so it is a string here as well. Identifiers are Go
  \<^verbatim>\<open>int64\<close> values handed out by a SERIAL column; they are modelled as \<open>int\<close>.
  Amounts are \<^verbatim>\<open>float64\<close> in Go and DOUBLE PRECISION in the store. Their type is the
  type variable \<open>'f\<close>, and the operations that the code applies to amounts (the
  aggregate \<^verbatim>\<open>SUM\<close> and the literal \<^verbatim>\<open>0\<close> of the SQL text, the subtraction and the
  comparison of the Go text) are the fields of the record \<open>arithmetic\<close>, which the
  functions below take as a parameter. A general theorem therefore holds whatever
  binary64 arithmetic answers; concrete stores are evaluated with \<open>binary64_arithmetic\<close>
  (round to nearest, ties to even), defined further down. Timestamps are written by the
  store's clock and read by no operation modelled here; they are left out.
\<close>

record order =
  ID :: int
  OrderNumber :: string
  UserID :: int
  Status :: string

record 'f balance_transaction =
  tx_user_id :: int
  tx_order_id :: "int option"
  tx_amount :: 'f
  tx_type :: string

text \<open>
  The store: the rows of both tables in insertion order, and the next value of the
  sequence behind \<^verbatim>\<open>orders.id\<close>.
\<close>

record 'f store =
  orders :: "order list"
  next_order_id :: int
  ledger :: "'f balance_transaction list"

text \<open>
  The operations on amounts: \<open>sql_zero\<close> is the literal \<^verbatim>\<open>0\<close> of the SQL text as a
  DOUBLE PRECISION value, \<open>sql_SUM\<close> is the aggregate \<^verbatim>\<open>SUM\<close> over a DOUBLE PRECISION
  column (\<open>None\<close> is NULL, its answer over no rows), \<open>go_minus\<close> and \<open>go_greater\<close> are
  \<^verbatim>\<open>-\<close> and \<^verbatim>\<open>>\<close> on \<^verbatim>\<open>float64\<close>. The operations are total: a query that the store
  refuses (a lost connection, an aggregate out of range) is not modelled.
\<close>

record 'f arithmetic =
  sql_zero :: 'f
  sql_SUM :: "'f list \<Rightarrow> 'f option"
  go_minus :: "'f \<Rightarrow> 'f \<Rightarrow> 'f"
  go_greater :: "'f \<Rightarrow> 'f \<Rightarrow> bool"

definition empty_store :: "'f store" where
  "empty_store = \<lparr>orders = [], next_order_id = 1, ledger = []\<rparr>"

text \<open>
  The errors of the service (\<^verbatim>\<open>user_service.go\<close>, the \<^verbatim>\<open>var\<close> block of the order
  service) and the two errors the store itself can answer with: no row for a
  \<^verbatim>\<open>QueryRow\<close>, and a violated UNIQUE constraint on insert.
\<close>

datatype error =
    ErrOrderAlreadyUploadedByUser
  | ErrOrderAlreadyUploadedByAnother
  | ErrInvalidOrderFormat
  | ErrInvalidOrderNumber
  | ErrInsufficientFunds
  | ErrNoRows
  | ErrUniqueViolation

section \<open>Order number validator\<close>

text \<open>
  \<^verbatim>\<open>isValidLuhn\<close> walks the bytes of the string from the last index down to 0.
  \<^verbatim>\<open>number[i] - '0'\<close> is a subtraction of bytes, so it wraps modulo 256 before the
  conversion to \<^verbatim>\<open>int\<close>; the wrap is written out. The loop returns false at the first
  byte that is not a decimal digit. The counter of the recursion is \<open>i + 1\<close>, and
  \<open>acc\<close> is the variable \<^verbatim>\<open>sum\<close> of the source.
\<close>

definition byte_minus_zero :: "char \<Rightarrow> int" where
  "byte_minus_zero c = int ((of_char c + 256 - 48) mod 256)"

fun luhn_loop :: "string \<Rightarrow> nat \<Rightarrow> int \<Rightarrow> bool \<Rightarrow> bool" where
  "luhn_loop number 0 acc double = (acc mod 10 = 0)"
| "luhn_loop number (Suc i) acc double =
     (let digit = byte_minus_zero (number ! i) in
      if digit < 0 \<or> digit > 9 then False
      else
        let digit = (if double
                     then (let digit = digit * 2 in if digit > 9 then digit - 9 else digit)
                     else digit)
        in luhn_loop number i (acc + digit) (\<not> double))"

definition isValidLuhn :: "string \<Rightarrow> bool" where
  "isValidLuhn number = luhn_loop number (length number) 0 False"

text \<open>
  The Luhn checksum as the specification words it: the digits are taken right to left,
  every second one is doubled, 9 is subtracted from a doubled digit that exceeds 9, and
  everything is summed.
\<close>

definition is_digit :: "char \<Rightarrow> bool" where
  "is_digit c = (48 \<le> (of_char c :: nat) \<and> (of_char c :: nat) \<le> 57)"

definition digit_value :: "char \<Rightarrow> nat" where
  "digit_value c = of_char c - 48"

definition luhn_double :: "nat \<Rightarrow> nat" where
  "luhn_double d = (if 2 * d > 9 then 2 * d - 9 else 2 * d)"

definition spec_luhn_checksum :: "string \<Rightarrow> nat" where
  "spec_luhn_checksum n =
     sum_list (map (\<lambda>(i, c). if odd i then luhn_double (digit_value c) else digit_value c)
                   (enumerate 0 (rev n)))"

section \<open>Order store and ledger (the repository over PostgreSQL)\<close>

text \<open>
  \<^verbatim>\<open>CreateOrder\<close> inserts a row with status NEW. The table declares
  \<^verbatim>\<open>order_number TEXT UNIQUE\<close>, so the insert is refused when the number is taken; the
  sequence value drawn for the refused row is not given back.
\<close>

definition CreateOrder :: "string \<Rightarrow> int \<Rightarrow> 'f store \<Rightarrow> error option \<times> 'f store" where
  "CreateOrder orderNumber userID s =
     (if list_ex (\<lambda>x. OrderNumber x = orderNumber) (orders s)
      then (Some ErrUniqueViolation, s\<lparr>next_order_id := next_order_id s + 1\<rparr>)
      else (None, s\<lparr>orders := orders s @
                        [\<lparr>ID = next_order_id s, OrderNumber = orderNumber,
                          UserID = userID, Status = ''NEW''\<rparr>],
                      next_order_id := next_order_id s + 1\<rparr>))"

text \<open>\<^verbatim>\<open>GetOrderByNumber\<close>: the first row with the number, whoever owns it.\<close>

definition GetOrderByNumber :: "'f store \<Rightarrow> string \<Rightarrow> error + order" where
  "GetOrderByNumber s orderNumber =
     (case find (\<lambda>x. OrderNumber x = orderNumber) (orders s) of
        None \<Rightarrow> Inl ErrNoRows
      | Some x \<Rightarrow> Inr x)"

text \<open>\<^verbatim>\<open>GetOrdersForStatusUpdate\<close>: \<^verbatim>\<open>WHERE status IN ('NEW', 'PROCESSING')\<close>.\<close>

definition GetOrdersForStatusUpdate :: "'f store \<Rightarrow> order list" where
  "GetOrdersForStatusUpdate s =
     filter (\<lambda>x. Status x = ''NEW'' \<or> Status x = ''PROCESSING'') (orders s)"

text \<open>\<^verbatim>\<open>UpdateOrderStatus\<close>: \<^verbatim>\<open>UPDATE orders SET status=$1 WHERE id=$2\<close>.\<close>

definition UpdateOrderStatus :: "int \<Rightarrow> string \<Rightarrow> 'f store \<Rightarrow> 'f store" where
  "UpdateOrderStatus orderID status s =
     s\<lparr>orders := map (\<lambda>x. if ID x = orderID then x\<lparr>Status := status\<rparr> else x) (orders s)\<rparr>"

text \<open>\<^verbatim>\<open>AddBalanceTransaction\<close> appends one row to the ledger.\<close>

definition AddBalanceTransaction ::
  "int \<Rightarrow> int option \<Rightarrow> 'f \<Rightarrow> string \<Rightarrow> 'f store \<Rightarrow> 'f store" where
  "AddBalanceTransaction userID orderID amount txType s =
     s\<lparr>ledger := ledger s @
         [\<lparr>tx_user_id = userID, tx_order_id = orderID, tx_amount = amount, tx_type = txType\<rparr>]\<rparr>"

text \<open>\<^verbatim>\<open>COALESCE(x, 0)\<close> turns NULL into its second argument.\<close>

definition coalesce :: "'f option \<Rightarrow> 'f \<Rightarrow> 'f" where
  "coalesce x d = (case x of None \<Rightarrow> d | Some v \<Rightarrow> v)"

text \<open>
  \<^verbatim>\<open>GetUserBalance\<close>: two conditional sums over the user's rows, computed by the store,
  then \<^verbatim>\<open>current = current - withdrawn\<close>, computed in Go.
\<close>

definition GetUserBalance :: "'f arithmetic \<Rightarrow> 'f store \<Rightarrow> int \<Rightarrow> 'f \<times> 'f" where
  "GetUserBalance ar s userID =
     (let rows = filter (\<lambda>t. tx_user_id t = userID) (ledger s);
          current = coalesce (sql_SUM ar (map (\<lambda>t. if tx_type t = ''ACCRUAL'' then tx_amount t
                                                   else sql_zero ar) rows)) (sql_zero ar);
          withdrawn = coalesce (sql_SUM ar (map (\<lambda>t. if tx_type t = ''WITHDRAWAL'' then tx_amount t
                                                     else sql_zero ar) rows)) (sql_zero ar);
          current = go_minus ar current withdrawn
      in (current, withdrawn))"

text \<open>
  \<^verbatim>\<open>GetOrderAccrual\<close>: the sum of the ACCRUAL rows of an order, nil when there is none.
\<close>

definition GetOrderAccrual :: "'f arithmetic \<Rightarrow> 'f store \<Rightarrow> int \<Rightarrow> 'f option" where
  "GetOrderAccrual ar s orderID =
     sql_SUM ar (map tx_amount
       (filter (\<lambda>t. tx_order_id t = Some orderID \<and> tx_type t = ''ACCRUAL'') (ledger s)))"

section \<open>Order lifecycle service\<close>

text \<open>
  \<^verbatim>\<open>UploadOrder\<close>. \<^verbatim>\<open>strings.TrimSpace\<close> belongs to Go's standard library; it is the
  parameter \<open>TrimSpace\<close>. The loop over the runes of the trimmed string refuses every
  rune outside \<^verbatim>\<open>'0'..'9'\<close>; a byte below 128 is its own rune and every other rune
  (also the replacement rune of a broken encoding) is above \<^verbatim>\<open>'9'\<close>, so the loop
  refuses exactly the strings with a byte outside \<^verbatim>\<open>'0'..'9'\<close>. The result is the Go
  \<^verbatim>\<open>error\<close> (\<open>None\<close> for \<^verbatim>\<open>nil\<close>) and the store after the call.
\<close>

definition UploadOrder ::
  "(string \<Rightarrow> string) \<Rightarrow> string \<Rightarrow> int \<Rightarrow> 'f store \<Rightarrow> error option \<times> 'f store" where
  "UploadOrder TrimSpace orderNumber userID s =
     (let orderNumber = TrimSpace orderNumber in
      if orderNumber = [] then (Some ErrInvalidOrderFormat, s)
      else if list_ex (\<lambda>c. (of_char c :: nat) < 48 \<or> (of_char c :: nat) > 57) orderNumber
        then (Some ErrInvalidOrderNumber, s)
      else if \<not> isValidLuhn orderNumber then (Some ErrInvalidOrderNumber, s)
      else (case GetOrderByNumber s orderNumber of
              Inr order \<Rightarrow>
                if UserID order = userID then (Some ErrOrderAlreadyUploadedByUser, s)
                else (Some ErrOrderAlreadyUploadedByAnother, s)
            | Inl err \<Rightarrow> CreateOrder orderNumber userID s))"

text \<open>
  \<^verbatim>\<open>WithdrawBalance\<close>; \<open>amount\<close> is the parameter \<^verbatim>\<open>sum\<close> of the source.
\<close>

definition WithdrawBalance ::
  "'f arithmetic \<Rightarrow> int \<Rightarrow> string \<Rightarrow> 'f \<Rightarrow> 'f store \<Rightarrow> error option \<times> 'f store" where
  "WithdrawBalance ar userID orderNumber amount s =
     (if \<not> isValidLuhn orderNumber then (Some ErrInvalidOrderNumber, s)
      else
        let current = fst (GetUserBalance ar s userID) in
        if go_greater ar amount current then (Some ErrInsufficientFunds, s)
        else (case GetOrderByNumber s orderNumber of
                Inr order \<Rightarrow>
                  (None, AddBalanceTransaction userID (Some (ID order)) amount ''WITHDRAWAL'' s)
              | Inl err \<Rightarrow>
                  (case CreateOrder orderNumber userID s of
                     (Some err, s1) \<Rightarrow> (Some err, s1)
                   | (None, s1) \<Rightarrow>
                       (case GetOrderByNumber s1 orderNumber of
                          Inl err \<Rightarrow> (Some err, s1)
                        | Inr order \<Rightarrow>
                            (None, AddBalanceTransaction userID (Some (ID order)) amount
                                     ''WITHDRAWAL'' s1)))))"

section \<open>Accrual gateway and reconciliation worker\<close>

text \<open>
  What one \<^verbatim>\<open>AccrualClient.GetOrder\<close> call gives the worker: an error of the
  transport (also a timeout), or a response with its status code and the outcome of
  decoding its body as \<^verbatim>\<open>{order, status, accrual?}\<close> (\<open>None\<close> when the decoder fails).
  The client is a function of the URL that one worker cycle asks.
\<close>

record 'f accrualResp =
  resp_Order :: string
  resp_Status :: string
  resp_Accrual :: "'f option"

datatype 'f accrual_reply = TransportError | HTTPResponse int "'f accrualResp option"

type_synonym 'f AccrualClient = "string \<Rightarrow> 'f accrual_reply"

definition order_url :: "string \<Rightarrow> string \<Rightarrow> string" where
  "order_url accrualAddr orderNumber = accrualAddr @ ''/api/orders/'' @ orderNumber"

text \<open>
  The body of the loop over the scanned orders. \<open>order\<close> is the row as the scan read
  it. The errors of \<^verbatim>\<open>UpdateOrderStatus\<close> and \<^verbatim>\<open>AddBalanceTransaction\<close> are dropped by
  the source.
\<close>

definition process_order ::
  "'f AccrualClient \<Rightarrow> string \<Rightarrow> order \<Rightarrow> 'f store \<Rightarrow> 'f store" where
  "process_order client accrualAddr order s =
     (case client (order_url accrualAddr (OrderNumber order)) of
        TransportError \<Rightarrow> s
      | HTTPResponse code body \<Rightarrow>
          if code = 204 then UpdateOrderStatus (ID order) ''INVALID'' s
          else if code \<noteq> 200 then s
          else (case body of
                  None \<Rightarrow> s
                | Some r \<Rightarrow>
                    let s1 = UpdateOrderStatus (ID order) (resp_Status r) s in
                    (case resp_Accrual r of
                       None \<Rightarrow> s1
                     | Some a \<Rightarrow>
                         if resp_Status r = ''PROCESSED''
                         then AddBalanceTransaction (UserID order) (Some (ID order)) a
                                ''ACCRUAL'' s1
                         else s1)))"

text \<open>One tick of \<^verbatim>\<open>StartOrderStatusWorker\<close>: scan, then the loop over the scan.\<close>

definition worker_cycle :: "'f AccrualClient \<Rightarrow> string \<Rightarrow> 'f store \<Rightarrow> 'f store" where
  "worker_cycle client accrualAddr s =
     foldl (\<lambda>s1 order. process_order client accrualAddr order s1) s
       (GetOrdersForStatusUpdate s)"

section \<open>The system as a sequence of operations\<close>

text \<open>
  The operations that write to the store: an upload, a withdrawal, a tick of the worker
  (with the answers the accrual service gives during that tick).
\<close>

datatype 'f event =
    Upload string int
  | Withdraw int string 'f
  | Tick "'f AccrualClient"

fun step ::
  "'f arithmetic \<Rightarrow> (string \<Rightarrow> string) \<Rightarrow> string \<Rightarrow> 'f event \<Rightarrow> 'f store \<Rightarrow> 'f store" where
  "step ar TrimSpace accrualAddr (Upload orderNumber userID) s =
     snd (UploadOrder TrimSpace orderNumber userID s)"
| "step ar TrimSpace accrualAddr (Withdraw userID orderNumber amount) s =
     snd (WithdrawBalance ar userID orderNumber amount s)"
| "step ar TrimSpace accrualAddr (Tick client) s = worker_cycle client accrualAddr s"

fun run ::
  "'f arithmetic \<Rightarrow> (string \<Rightarrow> string) \<Rightarrow> string \<Rightarrow> 'f event list \<Rightarrow> 'f store \<Rightarrow> 'f store" where
  "run ar TrimSpace accrualAddr [] s = s"
| "run ar TrimSpace accrualAddr (e # es) s =
     run ar TrimSpace accrualAddr es (step ar TrimSpace accrualAddr e s)"

text \<open>
  The constraints the schema declares on \<^verbatim>\<open>orders\<close>: \<^verbatim>\<open>id\<close> is the primary key, drawn
  from the sequence, and \<^verbatim>\<open>order_number\<close> is UNIQUE.
\<close>

definition wf_store :: "'f store \<Rightarrow> bool" where
  "wf_store s =
     (distinct (map ID (orders s)) \<and> distinct (map OrderNumber (orders s)) \<and>
      list_all (\<lambda>x. ID x < next_order_id s) (orders s))"

text \<open>The ACCRUAL rows of the ledger that reference an order.\<close>

definition accruals_of :: "'f store \<Rightarrow> int \<Rightarrow> 'f balance_transaction list" where
  "accruals_of s orderID =
     filter (\<lambda>t. tx_order_id t = Some orderID \<and> tx_type t = ''ACCRUAL'') (ledger s)"

text \<open>
  The ASCII part of \<^verbatim>\<open>strings.TrimSpace\<close> (tab, line feed, vertical tab, form feed,
  carriage return, space), for evaluating uploads of ASCII inputs.
\<close>

definition ascii_space :: "char \<Rightarrow> bool" where
  "ascii_space c = ((of_char c :: nat) = 9 \<or> (of_char c :: nat) = 10 \<or> (of_char c :: nat) = 11 \<or>
                    (of_char c :: nat) = 12 \<or> (of_char c :: nat) = 13 \<or> (of_char c :: nat) = 32)"

definition trim_ascii :: "string \<Rightarrow> string" where
  "trim_ascii n = rev (dropWhile ascii_space (rev (dropWhile ascii_space n)))"

section \<open>Binary64 arithmetic on finite values\<close>

text \<open>
  The arithmetic of \<^verbatim>\<open>float64\<close> and DOUBLE PRECISION (IEEE 754 binary64, round to
  nearest, ties to even) on finite values, for evaluating concrete stores.
  \<open>Dyadic m e\<close> stands for \<^verbatim>\<open>m * 2^e\<close>; a binary64 value has \<^verbatim>\<open>|m| < 2^53\<close> and
  \<^verbatim>\<open>-1074 <= e\<close>. Infinities, NaN, the sign of zero and overflow are not represented:
  \<open>binary64_arithmetic\<close> is applied below only to amounts far from the overflow
  threshold. The aggregate adds the rows one after the other, in table order.
\<close>

datatype binary64 = Dyadic int int

function bit_length :: "int \<Rightarrow> int" where
  "bit_length m = (if m \<le> 0 then 0 else 1 + bit_length (m div 2))"
  by pat_completeness auto
termination
  by (relation "measure nat") auto

declare bit_length.simps [simp del]

text \<open>
  The exact value \<^verbatim>\<open>m * 2^e\<close> rounded to 53 significant bits (fewer below \<^verbatim>\<open>2^-1022\<close>):
  \<open>d\<close> low bits are dropped and the rest is rounded to nearest, ties to even.
\<close>

definition round_binary64 :: "int \<Rightarrow> int \<Rightarrow> binary64" where
  "round_binary64 m e =
     (let k = bit_length \<bar>m\<bar>;
          e' = max (e + k - 53) (- 1074)
      in if e' \<le> e then Dyadic m e
         else
           let d = nat (e' - e);
               q = \<bar>m\<bar> div 2 ^ d;
               r = \<bar>m\<bar> mod 2 ^ d;
               q = (if 2 * r > 2 ^ d \<or> (2 * r = 2 ^ d \<and> odd q) then q + 1 else q)
           in Dyadic (sgn m * q) e')"

fun binary64_add :: "binary64 \<Rightarrow> binary64 \<Rightarrow> binary64" where
  "binary64_add (Dyadic m1 e1) (Dyadic m2 e2) =
     (let e = min e1 e2
      in round_binary64 (m1 * 2 ^ nat (e1 - e) + m2 * 2 ^ nat (e2 - e)) e)"

fun binary64_sub :: "binary64 \<Rightarrow> binary64 \<Rightarrow> binary64" where
  "binary64_sub (Dyadic m1 e1) (Dyadic m2 e2) =
     (let e = min e1 e2
      in round_binary64 (m1 * 2 ^ nat (e1 - e) - m2 * 2 ^ nat (e2 - e)) e)"

fun binary64_greater :: "binary64 \<Rightarrow> binary64 \<Rightarrow> bool" where
  "binary64_greater (Dyadic m1 e1) (Dyadic m2 e2) =
     (let e = min e1 e2 in m1 * 2 ^ nat (e1 - e) > m2 * 2 ^ nat (e2 - e))"

definition binary64_SUM :: "binary64 list \<Rightarrow> binary64 option" where
  "binary64_SUM xs = (case xs of [] \<Rightarrow> None | x # ys \<Rightarrow> Some (foldl binary64_add x ys))"

definition binary64_arithmetic :: "binary64 arithmetic" where
  "binary64_arithmetic =
     \<lparr>sql_zero = Dyadic 0 0, sql_SUM = binary64_SUM, go_minus = binary64_sub,
      go_greater = binary64_greater\<rparr>"

fun binary64_value :: "binary64 \<Rightarrow> real" where
  "binary64_value (Dyadic m e) =
     (if 0 \<le> e then of_int m * 2 ^ nat e else of_int m / 2 ^ nat (- e))"

text \<open>The binary64 values nearest to the decimals 0.11, 0.04 and 0.07.\<close>

definition decimal_0_11 :: binary64 where
  "decimal_0_11 = Dyadic 7926335344172073 (- 56)"

definition decimal_0_04 :: binary64 where
  "decimal_0_04 = Dyadic 5764607523034235 (- 57)"

definition decimal_0_07 :: binary64 where
  "decimal_0_07 = Dyadic 5044031582654956 (- 56)"

section \<open>Auxiliary definitions for the proofs\<close>

text \<open>
  The sum the loop of \<^verbatim>\<open>isValidLuhn\<close> has still to add, over the bytes it has not
  visited yet (nearest first), with the current value of \<^verbatim>\<open>double\<close>.
\<close>

fun luhn_from :: "bool \<Rightarrow> string \<Rightarrow> nat" where
  "luhn_from d [] = 0"
| "luhn_from d (c # cs) =
     (if d then luhn_double (digit_value c) else digit_value c) + luhn_from (\<not> d) cs"

text \<open>
  The sum of the amounts of a user's ledger rows of one type, as the specification
  defines the balance: \<open>current = \<Sum> ACCRUAL - \<Sum> WITHDRAWAL\<close>, \<open>withdrawn = \<Sum> WITHDRAWAL\<close>.
  It is the sum of the real numbers that the stored amounts stand for (\<open>val\<close>).
\<close>

definition spec_sum_of :: "('f \<Rightarrow> real) \<Rightarrow> string \<Rightarrow> 'f store \<Rightarrow> int \<Rightarrow> real" where
  "spec_sum_of val txType s userID =
     sum_list (map (\<lambda>t. val (tx_amount t))
       (filter (\<lambda>t. tx_user_id t = userID \<and> tx_type t = txType) (ledger s)))"

text \<open>
  The column that the store sums for one type: the user's rows, with the amount where
  the row has the type and the literal 0 elsewhere; and the sum the store answers for it.
\<close>

definition case_column :: "'f arithmetic \<Rightarrow> string \<Rightarrow> 'f store \<Rightarrow> int \<Rightarrow> 'f list" where
  "case_column ar txType s userID =
     map (\<lambda>t. if tx_type t = txType then tx_amount t else sql_zero ar)
       (filter (\<lambda>t. tx_user_id t = userID) (ledger s))"

definition column_sum :: "'f arithmetic \<Rightarrow> string \<Rightarrow> 'f store \<Rightarrow> int \<Rightarrow> 'f" where
  "column_sum ar txType s userID =
     coalesce (sql_SUM ar (case_column ar txType s userID)) (sql_zero ar)"

text \<open>
  No rounding happens in the balance of a user: the literal 0 stands for 0, each of
  the two column sums stands for the sum of what its rows stand for, and the
  difference stands for the difference.
\<close>

definition computed_exactly :: "('f \<Rightarrow> real) \<Rightarrow> 'f arithmetic \<Rightarrow> 'f store \<Rightarrow> int \<Rightarrow> bool" where
  "computed_exactly val ar s userID =
     (val (sql_zero ar) = 0 \<and>
      val (column_sum ar ''ACCRUAL'' s userID) =
        sum_list (map val (case_column ar ''ACCRUAL'' s userID)) \<and>
      val (column_sum ar ''WITHDRAWAL'' s userID) =
        sum_list (map val (case_column ar ''WITHDRAWAL'' s userID)) \<and>
      val (go_minus ar (column_sum ar ''ACCRUAL'' s userID) (column_sum ar ''WITHDRAWAL'' s userID)) =
        val (column_sum ar ''ACCRUAL'' s userID) - val (column_sum ar ''WITHDRAWAL'' s userID))"

text \<open>
  What one pass of the worker's loop body writes for an order: the status (if any) and
  the ledger rows (none or one).
\<close>

definition written_status :: "'f AccrualClient \<Rightarrow> string \<Rightarrow> order \<Rightarrow> string option" where
  "written_status client accrualAddr x =
     (case client (order_url accrualAddr (OrderNumber x)) of
        TransportError \<Rightarrow> None
      | HTTPResponse code body \<Rightarrow>
          if code = 204 then Some ''INVALID''
          else if code = 200 then map_option resp_Status body
          else None)"

definition credit_rows ::
  "'f AccrualClient \<Rightarrow> string \<Rightarrow> order \<Rightarrow> 'f balance_transaction list" where
  "credit_rows client accrualAddr x =
     (case client (order_url accrualAddr (OrderNumber x)) of
        HTTPResponse code (Some r) \<Rightarrow>
          (case resp_Accrual r of
             Some a \<Rightarrow>
               if code = 200 \<and> resp_Status r = ''PROCESSED''
               then [\<lparr>tx_user_id = UserID x, tx_order_id = Some (ID x), tx_amount = a,
                      tx_type = ''ACCRUAL''\<rparr>]
               else []
           | None \<Rightarrow> [])
      | _ \<Rightarrow> [])"

definition set_status :: "int \<Rightarrow> string option \<Rightarrow> order list \<Rightarrow> order list" where
  "set_status orderID st xs =
     (case st of None \<Rightarrow> xs
      | Some v \<Rightarrow> map (\<lambda>y. if ID y = orderID then y\<lparr>Status := v\<rparr> else y) xs)"

text \<open>
  The invariant behind "one accrual per order": every order has at most one ACCRUAL
  row, only an order in status PROCESSED has one, and no ACCRUAL row references an
  identifier the sequence has not handed out yet.
\<close>

definition accrual_inv :: "'f store \<Rightarrow> bool" where
  "accrual_inv s =
     (wf_store s \<and> (\<forall>i. length (accruals_of s i) \<le> 1) \<and>
      (\<forall>x\<in>set (orders s). accruals_of s (ID x) \<noteq> [] \<longrightarrow> Status x = ''PROCESSED'') \<and>
      (\<forall>i. next_order_id s \<le> i \<longrightarrow> accruals_of s i = []))"

section \<open>Concrete scenarios\<close>

text \<open>
  The scenarios run with \<open>binary64_arithmetic\<close>; the amount 500 is \<open>Dyadic 500 0\<close>.
  An accrual service that answers for one order number and is unreachable for every
  other one, behind the address \<^verbatim>\<open>http://accrual\<close>.
\<close>

definition answer_one :: "string \<Rightarrow> 'f accrual_reply \<Rightarrow> 'f AccrualClient" where
  "answer_one n r url = (if url = order_url ''http://accrual'' n then r else TransportError)"

definition reply_status :: "string \<Rightarrow> string \<Rightarrow> 'f option \<Rightarrow> 'f accrual_reply" where
  "reply_status n st amt =
     HTTPResponse 200 (Some \<lparr>resp_Order = n, resp_Status = st, resp_Accrual = amt\<rparr>)"

text \<open>
  User 1 uploads two orders; in the first tick the service reports the first one as
  PROCESSED with an accrual of 500 and does not answer for the second one.
\<close>

definition after_first_tick :: "binary64 store" where
  "after_first_tick =
     run binary64_arithmetic trim_ascii ''http://accrual''
       [Upload ''79927398713'' 1, Upload '' 2377225624'' 1,
        Tick (answer_one ''79927398713''
                (reply_status ''79927398713'' ''PROCESSED'' (Some (Dyadic 500 0))))]
       empty_store"

text \<open>
  Users 1 and 2 upload one order each; in one tick the service has no content for the
  order of user 1 and reports the order of user 2 as PROCESSED with an accrual of 500.
\<close>

definition invalid_and_credited_client :: "binary64 AccrualClient" where
  "invalid_and_credited_client url =
     (if url = order_url ''http://accrual'' ''79927398713'' then HTTPResponse 204 None
      else answer_one ''2377225624''
             (reply_status ''2377225624'' ''PROCESSED'' (Some (Dyadic 500 0))) url)"

definition two_users_uploaded :: "binary64 store" where
  "two_users_uploaded =
     run binary64_arithmetic trim_ascii ''http://accrual''
       [Upload ''79927398713'' 1, Upload ''2377225624'' 2] empty_store"

definition after_invalid_tick :: "binary64 store" where
  "after_invalid_tick = worker_cycle invalid_and_credited_client ''http://accrual'' two_users_uploaded"

text \<open>
  User 1 uploads an order; in the first tick the service reports it as PROCESSING.
\<close>

definition in_processing :: "binary64 store" where
  "in_processing =
     run binary64_arithmetic trim_ascii ''http://accrual''
       [Upload ''79927398713'' 1,
        Tick (answer_one ''79927398713'' (reply_status ''79927398713'' ''PROCESSING'' None))]
       empty_store"

text \<open>
  The second tick after \<open>after_first_tick\<close>: the service now reports the second order of
  user 1 as PROCESSED with an accrual of 300.
\<close>

definition second_tick_client :: "binary64 AccrualClient" where
  "second_tick_client =
     answer_one ''2377225624'' (reply_status ''2377225624'' ''PROCESSED'' (Some (Dyadic 300 0)))"

definition after_second_tick :: "binary64 store" where
  "after_second_tick =
     run binary64_arithmetic trim_ascii ''http://accrual'' [Tick second_tick_client] after_first_tick"

text \<open>
  User 1 uploads an order, the service reports it as PROCESSED with an accrual of 0.11,
  and user 1 withdraws 0.04; then user 1 withdraws 0.07.
\<close>

definition after_small_withdrawal :: "binary64 store" where
  "after_small_withdrawal =
     run binary64_arithmetic trim_ascii ''http://accrual''
       [Upload ''79927398713'' 1,
        Tick (answer_one ''79927398713''
                (reply_status ''79927398713'' ''PROCESSED'' (Some decimal_0_11))),
        Withdraw 1 ''18'' decimal_0_04]
       empty_store"

definition after_two_small_withdrawals :: "binary64 store" where
  "after_two_small_withdrawals =
     run binary64_arithmetic trim_ascii ''http://accrual''
       [Withdraw 1 ''26'' decimal_0_07] after_small_withdrawal"

section \<open>Properties of the validator\<close>

lemma byte_minus_zero_digit:
  "is_digit c \<Longrightarrow> byte_minus_zero c = int (digit_value c) \<and> digit_value c \<le> 9"
proof -
  assume "is_digit c"
  then have r: "48 \<le> (of_char c :: nat)" "(of_char c :: nat) \<le> 57"
    by (simp_all add: is_digit_def)
  define m where "m = (of_char c :: nat)"
  have "(m + 256 - 48) mod 256 = m - 48" if "48 \<le> m" "m \<le> 57" for m :: nat
  proof -
    define j where "j = m - 48"
    with that have j: "m = 48 + j" "j \<le> 9"
      by simp_all
    then show ?thesis by simp
  qed
  with r have "(of_char c + 256 - 48) mod 256 = (of_char c :: nat) - 48"
    by blast
  with r show ?thesis
    by (simp add: byte_minus_zero_def digit_value_def)
qed

lemma luhn_loop_digits:
  "k \<le> length n \<Longrightarrow> list_all is_digit n \<Longrightarrow>
   luhn_loop n k acc d = ((acc + int (luhn_from d (rev (take k n)))) mod 10 = 0)"
proof (induction k arbitrary: acc d)
  case 0
  then show ?case by simp
next
  case (Suc k)
  then have k: "k < length n" by simp
  with Suc.prems have dig: "is_digit (n ! k)" by (simp add: list_all_length)
  have tk: "rev (take (Suc k) n) = n ! k # rev (take k n)"
    using k by (simp add: take_Suc_conv_app_nth)
  from byte_minus_zero_digit [OF dig]
  have b: "byte_minus_zero (n ! k) = int (digit_value (n ! k))" and le: "digit_value (n ! k) \<le> 9"
    by simp_all
  have IH: "\<And>acc d. luhn_loop n k acc d = ((acc + int (luhn_from d (rev (take k n)))) mod 10 = 0)"
    using Suc.IH Suc.prems k by simp
  show ?case
  proof (cases d)
    case True
    have "(if int (digit_value (n ! k)) * 2 > 9 then int (digit_value (n ! k)) * 2 - 9
           else int (digit_value (n ! k)) * 2) = int (luhn_double (digit_value (n ! k)))"
      by (simp add: luhn_double_def)
    then show ?thesis using True le
      by (simp add: tk b IH Let_def add.assoc)
  next
    case False
    then show ?thesis using le
      by (simp add: tk b IH Let_def add.assoc)
  qed
qed

lemma luhn_from_enumerate:
  "sum_list (map (\<lambda>(i, c). if odd i then luhn_double (digit_value c) else digit_value c)
       (enumerate k cs)) = luhn_from (odd k) cs"
  by (induction cs arbitrary: k) simp_all

text \<open>
  Claim C8. On every string of decimal digits \<^verbatim>\<open>isValidLuhn\<close> answers true exactly when
  the Luhn checksum of the specification (digits right to left, every second one
  doubled, 9 subtracted from a doubled digit above 9, all summed) is divisible by 10.
  It answers true on 79927398713 and false on 79927398714. The function is a function
  of its argument alone: it reads and writes no store. The equivalence holds for the
  empty string as well, so non-emptiness is not needed as a hypothesis.
\<close>

theorem isValidLuhn_iff_checksum:
  "(list_all is_digit n \<longrightarrow> isValidLuhn n = (spec_luhn_checksum n mod 10 = 0)) \<and>
   isValidLuhn ''79927398713'' \<and> \<not> isValidLuhn ''79927398714''"
proof (intro conjI impI)
  assume "list_all is_digit n"
  then have "isValidLuhn n = (int (luhn_from False (rev n)) mod 10 = 0)"
    by (simp add: isValidLuhn_def luhn_loop_digits)
  also have "\<dots> = (luhn_from False (rev n) mod 10 = 0)"
    by presburger
  finally show "isValidLuhn n = (spec_luhn_checksum n mod 10 = 0)"
    by (simp add: spec_luhn_checksum_def luhn_from_enumerate)
next
  show "isValidLuhn ''79927398713''"
    by (simp add: isValidLuhn_def byte_minus_zero_def)
next
  show "\<not> isValidLuhn ''79927398714''"
    by (simp add: isValidLuhn_def byte_minus_zero_def)
qed

theorem isValidLuhn_iff_checksum_witness:
  "list_all is_digit ''2377225624'' \<and> isValidLuhn ''2377225624'' \<and>
   spec_luhn_checksum ''2377225624'' mod 10 = 0"
  using isValidLuhn_iff_checksum [of "''2377225624''"]
  by (simp add: is_digit_def spec_luhn_checksum_def luhn_double_def digit_value_def enumerate_eq_zip)

section \<open>Lemmas about the store operations\<close>

lemma GetUserBalance_columns:
  "GetUserBalance ar s u =
     (go_minus ar (column_sum ar ''ACCRUAL'' s u) (column_sum ar ''WITHDRAWAL'' s u),
      column_sum ar ''WITHDRAWAL'' s u)"
  by (simp add: GetUserBalance_def Let_def column_sum_def case_column_def)

lemma sum_list_conditional:
  "val z = 0 \<Longrightarrow>
   sum_list (map (val \<circ> (\<lambda>t. if tx_type t = ty then tx_amount t else z))
                 (filter (\<lambda>t. tx_user_id t = u) xs)) =
   sum_list (map (\<lambda>t. val (tx_amount t)) (filter (\<lambda>t. tx_user_id t = u \<and> tx_type t = ty) xs))"
  by (induction xs) simp_all

lemma case_column_sum:
  "val (sql_zero ar) = 0 \<Longrightarrow>
   sum_list (map val (case_column ar ty s u)) = spec_sum_of val ty s u"
  by (simp add: case_column_def spec_sum_of_def sum_list_conditional)

lemma GetOrderByNumber_Inl:
  "GetOrderByNumber s n = Inl e \<Longrightarrow> e = ErrNoRows \<and> \<not> list_ex (\<lambda>x. OrderNumber x = n) (orders s)"
  by (auto simp: GetOrderByNumber_def list_ex_iff find_None_iff split: option.splits)

lemma GetOrderByNumber_Inr:
  "GetOrderByNumber s n = Inr x \<Longrightarrow> x \<in> set (orders s) \<and> OrderNumber x = n"
  by (auto simp: GetOrderByNumber_def find_Some_iff split: option.splits)

lemma GetOrderByNumber_ledger [simp]:
  "GetOrderByNumber (AddBalanceTransaction u oid a ty s) n = GetOrderByNumber s n"
  by (simp add: GetOrderByNumber_def AddBalanceTransaction_def)

lemma find_app:
  "find P (xs @ ys) = (case find P xs of None \<Rightarrow> find P ys | Some x \<Rightarrow> Some x)"
  by (induction xs) simp_all

lemma find_no_match: "\<not> list_ex P xs \<Longrightarrow> find P xs = None"
  by (induction xs) simp_all

lemma CreateOrder_fresh:
  assumes "\<not> list_ex (\<lambda>x. OrderNumber x = n) (orders s)"
  shows "CreateOrder n u s =
           (None, s\<lparr>orders := orders s @ [\<lparr>ID = next_order_id s, OrderNumber = n, UserID = u, Status = ''NEW''\<rparr>],
                    next_order_id := next_order_id s + 1\<rparr>)"
    and "GetOrderByNumber (snd (CreateOrder n u s)) n =
           Inr \<lparr>ID = next_order_id s, OrderNumber = n, UserID = u, Status = ''NEW''\<rparr>"
  using assms by (simp_all add: CreateOrder_def GetOrderByNumber_def find_app find_no_match)

lemma WithdrawBalance_existing:
  assumes "isValidLuhn n" "\<not> go_greater ar amount (fst (GetUserBalance ar s u))" "GetOrderByNumber s n = Inr x"
  shows "WithdrawBalance ar u n amount s =
          (None, s\<lparr>ledger := ledger s @ [\<lparr>tx_user_id = u, tx_order_id = Some (ID x), tx_amount = amount, tx_type = ''WITHDRAWAL''\<rparr>]\<rparr>)"
  using assms by (simp add: WithdrawBalance_def AddBalanceTransaction_def)

lemma WithdrawBalance_fresh:
  assumes "isValidLuhn n" "\<not> go_greater ar amount (fst (GetUserBalance ar s u))" "GetOrderByNumber s n = Inl e"
  shows "WithdrawBalance ar u n amount s =
          (None, s\<lparr>orders := orders s @ [\<lparr>ID = next_order_id s, OrderNumber = n, UserID = u, Status = ''NEW''\<rparr>],
                   next_order_id := next_order_id s + 1,
                   ledger := ledger s @ [\<lparr>tx_user_id = u, tx_order_id = Some (next_order_id s), tx_amount = amount, tx_type = ''WITHDRAWAL''\<rparr>]\<rparr>)"
proof -
  from GetOrderByNumber_Inl [OF assms(3)]
  have fresh: "\<not> list_ex (\<lambda>x. OrderNumber x = n) (orders s)" by simp
  note c = CreateOrder_fresh [OF fresh, of u]
  have g: "GetOrderByNumber (s\<lparr>orders := orders s @ [\<lparr>ID = next_order_id s, OrderNumber = n, UserID = u, Status = ''NEW''\<rparr>],
                    next_order_id := next_order_id s + 1\<rparr>) n = Inr \<lparr>ID = next_order_id s, OrderNumber = n, UserID = u, Status = ''NEW''\<rparr>"
    using c by simp
  show ?thesis
    using assms by (simp add: WithdrawBalance_def c(1) g AddBalanceTransaction_def)
qed

lemma WithdrawBalance_rejected:
  "\<not> isValidLuhn n \<Longrightarrow> WithdrawBalance ar u n amount s = (Some ErrInvalidOrderNumber, s)"
  "isValidLuhn n \<Longrightarrow> go_greater ar amount (fst (GetUserBalance ar s u)) \<Longrightarrow> WithdrawBalance ar u n amount s = (Some ErrInsufficientFunds, s)"
  by (simp_all add: WithdrawBalance_def)

lemma WithdrawBalance_cases:
  obtains (invalid) "\<not> isValidLuhn n" "WithdrawBalance ar u n amount s = (Some ErrInvalidOrderNumber, s)"
  | (funds) "isValidLuhn n" "go_greater ar amount (fst (GetUserBalance ar s u))" "WithdrawBalance ar u n amount s = (Some ErrInsufficientFunds, s)"
  | (existing) x where "isValidLuhn n" "\<not> go_greater ar amount (fst (GetUserBalance ar s u))" "GetOrderByNumber s n = Inr x"
      "WithdrawBalance ar u n amount s =
          (None, s\<lparr>ledger := ledger s @ [\<lparr>tx_user_id = u, tx_order_id = Some (ID x), tx_amount = amount, tx_type = ''WITHDRAWAL''\<rparr>]\<rparr>)"
  | (fresh) "isValidLuhn n" "\<not> go_greater ar amount (fst (GetUserBalance ar s u))" "GetOrderByNumber s n = Inl ErrNoRows"
      "WithdrawBalance ar u n amount s =
          (None, s\<lparr>orders := orders s @ [\<lparr>ID = next_order_id s, OrderNumber = n, UserID = u, Status = ''NEW''\<rparr>],
                   next_order_id := next_order_id s + 1,
                   ledger := ledger s @ [\<lparr>tx_user_id = u, tx_order_id = Some (next_order_id s), tx_amount = amount, tx_type = ''WITHDRAWAL''\<rparr>]\<rparr>)"
proof (cases "isValidLuhn n")
  case False
  show ?thesis
    by (rule invalid [OF False]) (simp add: WithdrawBalance_rejected(1) [OF False])
next
  case v: True
  show ?thesis
  proof (cases "go_greater ar amount (fst (GetUserBalance ar s u))")
    case True
    show ?thesis
      by (rule funds [OF v True]) (simp add: WithdrawBalance_rejected(2) [OF v True])
  next
    case le: False
    show ?thesis
    proof (cases "GetOrderByNumber s n")
      case (Inl e)
      with GetOrderByNumber_Inl [of s n e] have g: "GetOrderByNumber s n = Inl ErrNoRows"
        by simp
      show ?thesis
        by (rule fresh [OF v le g]) (rule WithdrawBalance_fresh [OF v le g])
    next
      case (Inr x)
      show ?thesis
        by (rule existing [OF v le Inr]) (rule WithdrawBalance_existing [OF v le Inr])
    qed
  qed
qed

section \<open>Lemmas about the worker and the invariants of the system\<close>

lemma process_order_eq:
  "process_order c a x s =
     s\<lparr>orders := set_status (ID x) (written_status c a x) (orders s),
       ledger := ledger s @ credit_rows c a x\<rparr>"
  by (simp add: process_order_def written_status_def credit_rows_def set_status_def
        UpdateOrderStatus_def AddBalanceTransaction_def Let_def
      split: accrual_reply.splits option.splits)

lemma credit_rows_cases:
  "credit_rows c a x = [] \<or>
   (\<exists>amt. credit_rows c a x =
        [\<lparr>tx_user_id = UserID x, tx_order_id = Some (ID x), tx_amount = amt, tx_type = ''ACCRUAL''\<rparr>] \<and>
      written_status c a x = Some ''PROCESSED'')"
  by (auto simp: credit_rows_def written_status_def split: accrual_reply.splits option.splits)

lemma process_order_sel [simp]:
  "orders (process_order c a x s) = set_status (ID x) (written_status c a x) (orders s)"
  "ledger (process_order c a x s) = ledger s @ credit_rows c a x"
  "next_order_id (process_order c a x s) = next_order_id s"
  by (simp_all add: process_order_eq)

lemma set_status_ids [simp]:
  "map ID (set_status i st xs) = map ID xs"
  "map OrderNumber (set_status i st xs) = map OrderNumber xs"
  "map UserID (set_status i st xs) = map UserID xs"
  by (simp_all add: set_status_def split: option.splits)

lemma set_status_other:
  "y \<in> set xs \<Longrightarrow> ID y \<noteq> i \<Longrightarrow> y \<in> set (set_status i st xs)"
  by (auto simp: set_status_def split: option.splits)

lemma set_status_mem:
  "y \<in> set (set_status i st xs) \<Longrightarrow>
     (y \<in> set xs \<and> (st = None \<or> ID y \<noteq> i)) \<or> (ID y = i \<and> st = Some (Status y))"
  by (auto simp: set_status_def split: option.splits if_splits)

lemma foldl_process_sel:
  "ledger (foldl (\<lambda>s1 x. process_order c a x s1) s L) = ledger s @ concat (map (credit_rows c a) L)"
  "next_order_id (foldl (\<lambda>s1 x. process_order c a x s1) s L) = next_order_id s"
  "map ID (orders (foldl (\<lambda>s1 x. process_order c a x s1) s L)) = map ID (orders s)"
  "map OrderNumber (orders (foldl (\<lambda>s1 x. process_order c a x s1) s L)) = map OrderNumber (orders s)"
  by (induction L arbitrary: s) simp_all

lemma foldl_process_keeps:
  "y \<in> set (orders s) \<Longrightarrow> list_all (\<lambda>x. ID x \<noteq> ID y) L \<Longrightarrow>
   y \<in> set (orders (foldl (\<lambda>s1 x. process_order c a x s1) s L))"
proof (induction L arbitrary: s)
  case Nil
  then show ?case by simp
next
  case (Cons x L)
  then have "y \<in> set (orders (process_order c a x s))"
    by (simp add: set_status_other)
  with Cons show ?case by simp
qed


lemma accruals_of_append:
  "ledger s' = ledger s @ rows \<Longrightarrow>
   accruals_of s' i = accruals_of s i @
     filter (\<lambda>t. tx_order_id t = Some i \<and> tx_type t = ''ACCRUAL'') rows"
  by (simp add: accruals_of_def)

lemma credit_rows_other:
  "ID x \<noteq> i \<Longrightarrow> filter (\<lambda>t. tx_order_id t = Some i \<and> tx_type t = ''ACCRUAL'') (credit_rows c a x) = []"
  using credit_rows_cases [of c a x] by auto

lemma foldl_process_accruals:
  "list_all (\<lambda>x. ID x \<noteq> i) L \<Longrightarrow>
   accruals_of (foldl (\<lambda>s1 x. process_order c a x s1) s L) i = accruals_of s i"
proof (induction L arbitrary: s)
  case Nil
  then show ?case by simp
next
  case (Cons x L)
  have "accruals_of (process_order c a x s) i = accruals_of s i"
    using Cons.prems by (simp add: accruals_of_def credit_rows_other)
  with Cons show ?case by simp
qed

lemma wf_store_empty: "wf_store empty_store"
  by (simp add: wf_store_def empty_store_def)

lemma wf_store_alt:
  "wf_store s = (distinct (map ID (orders s)) \<and> distinct (map OrderNumber (orders s)) \<and>
                 (\<forall>i\<in>set (map ID (orders s)). i < next_order_id s))"
  by (auto simp: wf_store_def list_all_iff)

lemma wf_store_cycle: "wf_store s \<Longrightarrow> wf_store (worker_cycle c a s)"
  unfolding wf_store_alt worker_cycle_def foldl_process_sel by simp

lemma wf_store_CreateOrder: "wf_store s \<Longrightarrow> wf_store (snd (CreateOrder n u s))"
  unfolding wf_store_alt by (auto simp: CreateOrder_def list_ex_iff)

lemma wf_store_AddBalanceTransaction:
  "wf_store s \<Longrightarrow> wf_store (AddBalanceTransaction u i amt ty s)"
  by (simp add: wf_store_alt AddBalanceTransaction_def)

lemma UploadOrder_cases:
  "UploadOrder T n u s = (Some ErrInvalidOrderFormat, s) \<or>
   UploadOrder T n u s = (Some ErrInvalidOrderNumber, s) \<or>
   UploadOrder T n u s = (Some ErrOrderAlreadyUploadedByUser, s) \<or>
   UploadOrder T n u s = (Some ErrOrderAlreadyUploadedByAnother, s) \<or>
   (GetOrderByNumber s (T n) = Inl ErrNoRows \<and> UploadOrder T n u s = CreateOrder (T n) u s)"
  by (auto simp: UploadOrder_def Let_def split: sum.splits dest: GetOrderByNumber_Inl)

lemma step_shape:
  obtains (same) "step ar T a e s = s"
  | (created) n u where "\<not> list_ex (\<lambda>x. OrderNumber x = n) (orders s)"
      "step ar T a e s = s\<lparr>orders := orders s @ [\<lparr>ID = next_order_id s, OrderNumber = n, UserID = u, Status = ''NEW''\<rparr>],
                       next_order_id := next_order_id s + 1\<rparr>"
  | (withdrawn) u i amt where
      "step ar T a e s = s\<lparr>ledger := ledger s @ [\<lparr>tx_user_id = u, tx_order_id = Some i, tx_amount = amt, tx_type = ''WITHDRAWAL''\<rparr>]\<rparr>"
  | (created_withdrawn) n u amt where "\<not> list_ex (\<lambda>x. OrderNumber x = n) (orders s)"
      "step ar T a e s = s\<lparr>orders := orders s @ [\<lparr>ID = next_order_id s, OrderNumber = n, UserID = u, Status = ''NEW''\<rparr>],
                       next_order_id := next_order_id s + 1,
                       ledger := ledger s @ [\<lparr>tx_user_id = u, tx_order_id = Some (next_order_id s), tx_amount = amt, tx_type = ''WITHDRAWAL''\<rparr>]\<rparr>"
  | (tick) c where "e = Tick c" "step ar T a e s = worker_cycle c a s"
proof (cases e)
  case (Upload n u)
  from UploadOrder_cases [of T n u s] show ?thesis
  proof (elim disjE conjE)
    assume g: "GetOrderByNumber s (T n) = Inl ErrNoRows" and "UploadOrder T n u s = CreateOrder (T n) u s"
    moreover from GetOrderByNumber_Inl [OF g] have f: "\<not> list_ex (\<lambda>x. OrderNumber x = T n) (orders s)" by simp
    ultimately show ?thesis using created [OF f, of u] Upload CreateOrder_fresh(1) [OF f, of u] by simp
  qed (use Upload same in simp_all)
next
  case (Withdraw u n amt)
  show ?thesis
  proof (cases ar u n amt s rule: WithdrawBalance_cases)
    case invalid
    then show ?thesis using same Withdraw by simp
  next
    case funds
    then show ?thesis using same Withdraw by simp
  next
    case (existing x)
    then show ?thesis using withdrawn [of u "ID x" amt] Withdraw by simp
  next
    case fresh
    from GetOrderByNumber_Inl [OF fresh(3)] have f: "\<not> list_ex (\<lambda>x. OrderNumber x = n) (orders s)" by simp
    then show ?thesis using created_withdrawn [OF f, of u amt] fresh(4) Withdraw by simp
  qed
next
  case (Tick c)
  then show ?thesis using tick by simp
qed

lemma wf_store_step: "wf_store s \<Longrightarrow> wf_store (step ar T a e s)"
proof (cases ar T a e s rule: step_shape)
  case (tick c)
  assume "wf_store s"
  with tick show ?thesis by (simp add: wf_store_cycle)
qed (auto simp: wf_store_alt list_ex_iff)

lemma wf_store_run: "wf_store s \<Longrightarrow> wf_store (run ar T a es s)"
  by (induction es arbitrary: s) (simp_all add: wf_store_step)

lemma scan_ids_differ:
  assumes "wf_store s" "y \<in> set (orders s)" "Status y \<noteq> ''NEW''" "Status y \<noteq> ''PROCESSING''"
  shows "list_all (\<lambda>x. ID x \<noteq> ID y) (GetOrdersForStatusUpdate s)"
proof -
  from assms(1) have "inj_on ID (set (orders s))"
    by (simp add: wf_store_def distinct_map)
  with assms(2-4) show ?thesis
    by (auto simp: GetOrdersForStatusUpdate_def list_all_iff dest: inj_onD)
qed

lemma step_keeps_settled:
  assumes "wf_store s" "y \<in> set (orders s)" "Status y \<noteq> ''NEW''" "Status y \<noteq> ''PROCESSING''"
  shows "y \<in> set (orders (step ar T a e s)) \<and> accruals_of (step ar T a e s) (ID y) = accruals_of s (ID y)"
proof (cases ar T a e s rule: step_shape)
  case (tick c)
  with scan_ids_differ [OF assms] assms(2) show ?thesis
    by (simp add: worker_cycle_def foldl_process_keeps foldl_process_accruals)
qed (use assms(2) in \<open>simp_all add: accruals_of_def\<close>)

lemma run_keeps_settled:
  assumes "wf_store s" "y \<in> set (orders s)" "Status y \<noteq> ''NEW''" "Status y \<noteq> ''PROCESSING''"
  shows "y \<in> set (orders (run ar T a es s)) \<and> accruals_of (run ar T a es s) (ID y) = accruals_of s (ID y)"
  using assms
proof (induction es arbitrary: s)
  case Nil
  then show ?case by simp
next
  case (Cons e es)
  from step_keeps_settled [OF Cons.prems, where ar = ar and T = T and a = a and e = e] wf_store_step [OF Cons.prems(1), where ar = ar and T = T and a = a and e = e]
  have "y \<in> set (orders (run ar T a es (step ar T a e s))) \<and>
        accruals_of (run ar T a es (step ar T a e s)) (ID y) = accruals_of (step ar T a e s) (ID y)"
    using Cons.IH Cons.prems(3,4) by blast
  with step_keeps_settled [OF Cons.prems, where ar = ar and T = T and a = a and e = e] show ?case by simp
qed

lemma accrual_inv_process:
  assumes inv: "accrual_inv s" and none: "accruals_of s (ID x) = []" and old: "ID x < next_order_id s"
  shows "accrual_inv (process_order c a x s)"
proof -
  let ?s = "process_order c a x s"
  have acc: "accruals_of ?s i = accruals_of s i @
               filter (\<lambda>t. tx_order_id t = Some i \<and> tx_type t = ''ACCRUAL'') (credit_rows c a x)" for i
    by (simp add: accruals_of_def)
  have other: "accruals_of ?s i = accruals_of s i" if "i \<noteq> ID x" for i
    using that by (simp add: acc credit_rows_other)
  have own: "length (accruals_of ?s (ID x)) \<le> 1"
    using credit_rows_cases [of c a x] none by (auto simp: acc)
  have own_status: "written_status c a x = Some ''PROCESSED''" if "accruals_of ?s (ID x) \<noteq> []"
    using credit_rows_cases [of c a x] none that by (auto simp: acc)
  have 1: "wf_store ?s"
    using inv by (simp add: accrual_inv_def wf_store_alt)
  have 2: "length (accruals_of ?s i) \<le> 1" for i
    using inv own other [of i] by (cases "i = ID x") (simp_all add: accrual_inv_def)
  have 3: "Status y = ''PROCESSED''" if y: "y \<in> set (orders ?s)" and ne: "accruals_of ?s (ID y) \<noteq> []" for y
  proof (cases "ID y = ID x")
    case True
    with ne own_status have w: "written_status c a x = Some ''PROCESSED''" by simp
    from y have "y \<in> set (set_status (ID x) (written_status c a x) (orders s))" by simp
    from set_status_mem [OF this] True w show ?thesis by auto
  next
    case False
    from y have "y \<in> set (set_status (ID x) (written_status c a x) (orders s))" by simp
    from set_status_mem [OF this] False have "y \<in> set (orders s)" by auto
    moreover from ne False have "accruals_of s (ID y) \<noteq> []" by (simp add: other)
    ultimately show ?thesis using inv by (auto simp: accrual_inv_def)
  qed
  have 4: "accruals_of ?s i = []" if "next_order_id ?s \<le> i" for i
  proof -
    from that old have "i \<noteq> ID x" by simp
    with that inv show ?thesis by (simp add: other accrual_inv_def)
  qed
  from 1 2 3 4 show ?thesis unfolding accrual_inv_def by blast
qed

lemma accrual_inv_foldl:
  assumes "accrual_inv s" "distinct (map ID L)"
    "list_all (\<lambda>x. accruals_of s (ID x) = [] \<and> ID x < next_order_id s) L"
  shows "accrual_inv (foldl (\<lambda>s1 x. process_order c a x s1) s L)"
  using assms
proof (induction L arbitrary: s)
  case Nil
  then show ?case by simp
next
  case (Cons x L)
  let ?s = "process_order c a x s"
  from Cons.prems have 1: "accrual_inv ?s"
    by (simp add: accrual_inv_process)
  from Cons.prems(2) have d: "distinct (map ID L)" and nx: "ID x \<notin> ID ` set L" by simp_all
  have "ID y \<noteq> ID x" if "y \<in> set L" for y
    using that nx by (metis imageI)
  then have "list_all (\<lambda>y. ID y \<noteq> ID x) L" by (simp add: list_all_iff)
  with Cons.prems(3) have 2: "list_all (\<lambda>y. accruals_of ?s (ID y) = [] \<and> ID y < next_order_id ?s) L"
    by (auto simp: list_all_iff accruals_of_def credit_rows_other)
  from Cons.IH [OF 1 d 2] show ?case by simp
qed

lemma accrual_inv_cycle:
  assumes "accrual_inv s"
  shows "accrual_inv (worker_cycle c a s)"
proof -
  from assms have wf: "wf_store s" by (simp add: accrual_inv_def)
  then have d: "distinct (map ID (GetOrdersForStatusUpdate s))"
    by (simp add: wf_store_def GetOrdersForStatusUpdate_def distinct_map_filter)
  have "list_all (\<lambda>x. accruals_of s (ID x) = [] \<and> ID x < next_order_id s) (GetOrdersForStatusUpdate s)"
    using assms by (auto simp: accrual_inv_def wf_store_alt GetOrdersForStatusUpdate_def list_all_iff)
  from accrual_inv_foldl [OF assms d this] show ?thesis
    by (simp add: worker_cycle_def)
qed

lemma accrual_inv_step:
  assumes "accrual_inv s"
  shows "accrual_inv (step ar T a e s)"
proof (cases ar T a e s rule: step_shape)
  case same
  with assms show ?thesis by simp
next
  case (created n u)
  with assms show ?thesis
    by (auto simp: accrual_inv_def wf_store_alt list_ex_iff accruals_of_def)
next
  case (withdrawn u i amt)
  with assms show ?thesis
    by (auto simp: accrual_inv_def wf_store_alt accruals_of_def)
next
  case (created_withdrawn n u amt)
  with assms show ?thesis
    by (auto simp: accrual_inv_def wf_store_alt list_ex_iff accruals_of_def)
next
  case (tick c)
  with assms show ?thesis by (simp add: accrual_inv_cycle)
qed

lemma accrual_inv_run: "accrual_inv s \<Longrightarrow> accrual_inv (run ar T a es s)"
  by (induction es arbitrary: s) (simp_all add: accrual_inv_step)

lemma accrual_inv_empty: "accrual_inv empty_store"
  by (simp add: accrual_inv_def wf_store_empty) (simp add: empty_store_def accruals_of_def)

section \<open>The concrete scenarios, evaluated\<close>

lemma bit_length_numeral:
  "bit_length (numeral (Num.Bit0 k)) = 1 + bit_length (numeral k)"
  "bit_length (numeral (Num.Bit1 k)) = 1 + bit_length (numeral k)"
  "bit_length 1 = 1"
  "bit_length 0 = 0"
  by (subst bit_length.simps, simp)+

lemma decimals_nearest:
  "\<bar>binary64_value decimal_0_11 - 11 / 100\<bar> < 1 / 2 ^ 57"
  "\<bar>binary64_value decimal_0_04 - 4 / 100\<bar> < 1 / 2 ^ 58"
  "\<bar>binary64_value decimal_0_07 - 7 / 100\<bar> < 1 / 2 ^ 57"
  by (simp_all add: decimal_0_11_def decimal_0_04_def decimal_0_07_def)

lemmas eval_defs = UploadOrder_def WithdrawBalance_def worker_cycle_def process_order_def
  GetOrdersForStatusUpdate_def GetOrderByNumber_def CreateOrder_def UpdateOrderStatus_def
  AddBalanceTransaction_def GetUserBalance_def coalesce_def order_url_def
  isValidLuhn_def byte_minus_zero_def trim_ascii_def ascii_space_def empty_store_def
  answer_one_def reply_status_def Let_def
  binary64_arithmetic_def binary64_SUM_def round_binary64_def bit_length_numeral
  decimal_0_11_def decimal_0_04_def decimal_0_07_def

lemma after_first_tick_eq:
  "after_first_tick =
     \<lparr>orders = [\<lparr>ID = 1, OrderNumber = ''79927398713'', UserID = 1, Status = ''PROCESSED''\<rparr>,
                \<lparr>ID = 2, OrderNumber = ''2377225624'', UserID = 1, Status = ''NEW''\<rparr>],
      next_order_id = 3,
      ledger = [\<lparr>tx_user_id = 1, tx_order_id = Some 1, tx_amount = Dyadic 500 0, tx_type = ''ACCRUAL''\<rparr>]\<rparr>"
  by (simp add: after_first_tick_def eval_defs)

lemma two_users_uploaded_eq:
  "two_users_uploaded =
     \<lparr>orders = [\<lparr>ID = 1, OrderNumber = ''79927398713'', UserID = 1, Status = ''NEW''\<rparr>,
                \<lparr>ID = 2, OrderNumber = ''2377225624'', UserID = 2, Status = ''NEW''\<rparr>],
      next_order_id = 3, ledger = []\<rparr>"
  by (simp add: two_users_uploaded_def eval_defs)

lemma after_invalid_tick_eq:
  "after_invalid_tick =
     \<lparr>orders = [\<lparr>ID = 1, OrderNumber = ''79927398713'', UserID = 1, Status = ''INVALID''\<rparr>,
                \<lparr>ID = 2, OrderNumber = ''2377225624'', UserID = 2, Status = ''PROCESSED''\<rparr>],
      next_order_id = 3,
      ledger = [\<lparr>tx_user_id = 2, tx_order_id = Some 2, tx_amount = Dyadic 500 0, tx_type = ''ACCRUAL''\<rparr>]\<rparr>"
  by (simp add: after_invalid_tick_def two_users_uploaded_eq invalid_and_credited_client_def eval_defs)

lemma after_second_tick_eq:
  "after_second_tick =
     \<lparr>orders = [\<lparr>ID = 1, OrderNumber = ''79927398713'', UserID = 1, Status = ''PROCESSED''\<rparr>,
                \<lparr>ID = 2, OrderNumber = ''2377225624'', UserID = 1, Status = ''PROCESSED''\<rparr>],
      next_order_id = 3,
      ledger = [\<lparr>tx_user_id = 1, tx_order_id = Some 1, tx_amount = Dyadic 500 0, tx_type = ''ACCRUAL''\<rparr>,
                \<lparr>tx_user_id = 1, tx_order_id = Some 2, tx_amount = Dyadic 300 0, tx_type = ''ACCRUAL''\<rparr>]\<rparr>"
  by (simp add: after_second_tick_def second_tick_client_def after_first_tick_eq eval_defs)

lemma after_small_withdrawal_eq:
  "after_small_withdrawal =
     \<lparr>orders = [\<lparr>ID = 1, OrderNumber = ''79927398713'', UserID = 1, Status = ''PROCESSED''\<rparr>,
                \<lparr>ID = 2, OrderNumber = ''18'', UserID = 1, Status = ''NEW''\<rparr>],
      next_order_id = 3,
      ledger = [\<lparr>tx_user_id = 1, tx_order_id = Some 1, tx_amount = decimal_0_11, tx_type = ''ACCRUAL''\<rparr>,
                \<lparr>tx_user_id = 1, tx_order_id = Some 2, tx_amount = decimal_0_04, tx_type = ''WITHDRAWAL''\<rparr>]\<rparr>"
  by (simp add: after_small_withdrawal_def eval_defs)

lemma after_two_small_withdrawals_eq:
  "after_two_small_withdrawals =
     \<lparr>orders = [\<lparr>ID = 1, OrderNumber = ''79927398713'', UserID = 1, Status = ''PROCESSED''\<rparr>,
                \<lparr>ID = 2, OrderNumber = ''18'', UserID = 1, Status = ''NEW''\<rparr>,
                \<lparr>ID = 3, OrderNumber = ''26'', UserID = 1, Status = ''NEW''\<rparr>],
      next_order_id = 4,
      ledger = [\<lparr>tx_user_id = 1, tx_order_id = Some 1, tx_amount = decimal_0_11, tx_type = ''ACCRUAL''\<rparr>,
                \<lparr>tx_user_id = 1, tx_order_id = Some 2, tx_amount = decimal_0_04, tx_type = ''WITHDRAWAL''\<rparr>,
                \<lparr>tx_user_id = 1, tx_order_id = Some 3, tx_amount = decimal_0_07, tx_type = ''WITHDRAWAL''\<rparr>]\<rparr>"
  by (simp add: after_two_small_withdrawals_def after_small_withdrawal_eq eval_defs)

lemma in_processing_eq:
  "in_processing =
     \<lparr>orders = [\<lparr>ID = 1, OrderNumber = ''79927398713'', UserID = 1, Status = ''PROCESSING''\<rparr>],
      next_order_id = 2, ledger = []\<rparr>"
  by (simp add: in_processing_def eval_defs)

section \<open>Properties of the ledger and of withdrawals\<close>

text \<open>
  Claim C5, as amended. For every user and every ledger, \<^verbatim>\<open>GetUserBalance\<close> returns as
  withdrawn the sum that the store computes in DOUBLE PRECISION over the user's rows,
  every row that is not a WITHDRAWAL entering as 0, and as current the \<^verbatim>\<open>float64\<close>
  difference between the like sum for ACCRUAL and withdrawn. Whenever the two sums
  and the difference are computed without rounding, current stands for the sum of the
  amounts of the user's ACCRUAL rows minus the sum of the amounts of the user's
  WITHDRAWAL rows, and withdrawn for the sum of the amounts of the user's WITHDRAWAL
  rows.
\<close>

theorem GetUserBalance_is_ledger_sum:
  "GetUserBalance ar s u =
     (go_minus ar (column_sum ar ''ACCRUAL'' s u) (column_sum ar ''WITHDRAWAL'' s u),
      column_sum ar ''WITHDRAWAL'' s u) \<and>
   (computed_exactly val ar s u \<longrightarrow>
      val (fst (GetUserBalance ar s u)) =
        spec_sum_of val ''ACCRUAL'' s u - spec_sum_of val ''WITHDRAWAL'' s u \<and>
      val (snd (GetUserBalance ar s u)) = spec_sum_of val ''WITHDRAWAL'' s u)"
proof (intro conjI impI)
  show "GetUserBalance ar s u =
     (go_minus ar (column_sum ar ''ACCRUAL'' s u) (column_sum ar ''WITHDRAWAL'' s u),
      column_sum ar ''WITHDRAWAL'' s u)"
    by (rule GetUserBalance_columns)
next
  assume ex: "computed_exactly val ar s u"
  then have z: "val (sql_zero ar) = 0"
    by (simp add: computed_exactly_def)
  from ex have a: "val (column_sum ar ''ACCRUAL'' s u) = spec_sum_of val ''ACCRUAL'' s u"
    and w: "val (column_sum ar ''WITHDRAWAL'' s u) = spec_sum_of val ''WITHDRAWAL'' s u"
    by (simp_all add: computed_exactly_def case_column_sum [where val = val and ar = ar, OF z])
  from ex have "val (fst (GetUserBalance ar s u)) =
      val (column_sum ar ''ACCRUAL'' s u) - val (column_sum ar ''WITHDRAWAL'' s u)"
    by (simp add: GetUserBalance_columns computed_exactly_def)
  with a w show "val (fst (GetUserBalance ar s u)) =
        spec_sum_of val ''ACCRUAL'' s u - spec_sum_of val ''WITHDRAWAL'' s u"
    by simp
  from w show "val (snd (GetUserBalance ar s u)) = spec_sum_of val ''WITHDRAWAL'' s u"
    by (simp add: GetUserBalance_columns)
qed

text \<open>
  The claim as stated fails where binary64 addition rounds. The ledger of user 1 holds
  an accrual of 0.11 and withdrawals of 0.04 and 0.07 (the binary64 values nearest to
  these decimals). The store's sum of the withdrawals is rounded up to
  \<^verbatim>\<open>7926335344172074 / 2^56\<close>, their sum is \<^verbatim>\<open>15852670688344147 / 2^57\<close>; current is
  \<^verbatim>\<open>-1 / 2^56\<close>, the sum of the accruals minus the sum of the withdrawals is
  \<^verbatim>\<open>-1 / 2^57\<close>.
\<close>

theorem GetUserBalance_is_ledger_sum_counterexample:
  "ledger after_two_small_withdrawals =
     [\<lparr>tx_user_id = 1, tx_order_id = Some 1, tx_amount = decimal_0_11, tx_type = ''ACCRUAL''\<rparr>,
      \<lparr>tx_user_id = 1, tx_order_id = Some 2, tx_amount = decimal_0_04, tx_type = ''WITHDRAWAL''\<rparr>,
      \<lparr>tx_user_id = 1, tx_order_id = Some 3, tx_amount = decimal_0_07, tx_type = ''WITHDRAWAL''\<rparr>] \<and>
   GetUserBalance binary64_arithmetic after_two_small_withdrawals 1 =
     (Dyadic (- 1) (- 56), Dyadic 7926335344172074 (- 56)) \<and>
   binary64_value (fst (GetUserBalance binary64_arithmetic after_two_small_withdrawals 1)) =
     - 1 / 72057594037927936 \<and>
   spec_sum_of binary64_value ''ACCRUAL'' after_two_small_withdrawals 1 -
     spec_sum_of binary64_value ''WITHDRAWAL'' after_two_small_withdrawals 1 =
     - 1 / 144115188075855872 \<and>
   binary64_value (snd (GetUserBalance binary64_arithmetic after_two_small_withdrawals 1)) =
     7926335344172074 / 72057594037927936 \<and>
   spec_sum_of binary64_value ''WITHDRAWAL'' after_two_small_withdrawals 1 =
     15852670688344147 / 144115188075855872 \<and>
   binary64_value (fst (GetUserBalance binary64_arithmetic after_two_small_withdrawals 1)) \<noteq>
     spec_sum_of binary64_value ''ACCRUAL'' after_two_small_withdrawals 1 -
     spec_sum_of binary64_value ''WITHDRAWAL'' after_two_small_withdrawals 1 \<and>
   binary64_value (snd (GetUserBalance binary64_arithmetic after_two_small_withdrawals 1)) \<noteq>
     spec_sum_of binary64_value ''WITHDRAWAL'' after_two_small_withdrawals 1"
  by (simp add: after_two_small_withdrawals_eq spec_sum_of_def eval_defs)

text \<open>
  The witness: after the second tick user 1 holds accruals of 500 and 300; nothing is
  rounded, and current is 800.
\<close>

theorem GetUserBalance_is_ledger_sum_witness:
  "computed_exactly binary64_value binary64_arithmetic after_second_tick 1 \<and>
   GetUserBalance binary64_arithmetic after_second_tick 1 = (Dyadic 800 0, Dyadic 0 0) \<and>
   binary64_value (fst (GetUserBalance binary64_arithmetic after_second_tick 1)) = 800 \<and>
   spec_sum_of binary64_value ''ACCRUAL'' after_second_tick 1 = 800 \<and>
   spec_sum_of binary64_value ''WITHDRAWAL'' after_second_tick 1 = 0"
  using GetUserBalance_is_ledger_sum [where ar = binary64_arithmetic and s = after_second_tick
      and u = 1 and val = binary64_value]
  by (simp add: after_second_tick_eq computed_exactly_def column_sum_def case_column_def
        spec_sum_of_def eval_defs)

text \<open>
  Claim C6, as amended. A withdrawal whose amount is greater than the user's current
  balance (the \<^verbatim>\<open>float64\<close> comparison of the source, against the balance that
  \<^verbatim>\<open>GetUserBalance\<close> returns) writes nothing: with an order number that passes the
  Luhn check it fails with the insufficient-funds error; with an order number that does
  not, it fails with the invalid-number error, because the number is checked before
  the balance is read. A withdrawal succeeds only with an order number that passes the
  Luhn check and an amount that is not greater than that balance, and it then appends
  exactly one WITHDRAWAL row of that amount for the user.
\<close>

theorem WithdrawBalance_insufficient:
  "(isValidLuhn n \<and> go_greater ar amount (fst (GetUserBalance ar s u)) \<longrightarrow>
      WithdrawBalance ar u n amount s = (Some ErrInsufficientFunds, s)) \<and>
   (\<not> isValidLuhn n \<and> go_greater ar amount (fst (GetUserBalance ar s u)) \<longrightarrow>
      WithdrawBalance ar u n amount s = (Some ErrInvalidOrderNumber, s)) \<and>
   (WithdrawBalance ar u n amount s = (None, s') \<longrightarrow>
      isValidLuhn n \<and> \<not> go_greater ar amount (fst (GetUserBalance ar s u)) \<and>
      (\<exists>i. ledger s' = ledger s @
         [\<lparr>tx_user_id = u, tx_order_id = Some i, tx_amount = amount, tx_type = ''WITHDRAWAL''\<rparr>]))"
proof (intro conjI impI)
  assume ok: "WithdrawBalance ar u n amount s = (None, s')"
  show "isValidLuhn n"
    using ok by (cases ar u n amount s rule: WithdrawBalance_cases) simp_all
  show "\<not> go_greater ar amount (fst (GetUserBalance ar s u))"
    using ok by (cases ar u n amount s rule: WithdrawBalance_cases) simp_all
  show "\<exists>i. ledger s' = ledger s @
         [\<lparr>tx_user_id = u, tx_order_id = Some i, tx_amount = amount, tx_type = ''WITHDRAWAL''\<rparr>]"
    using ok by (cases ar u n amount s rule: WithdrawBalance_cases) auto
qed (simp_all add: WithdrawBalance_rejected)

text \<open>
  The claim as stated fails in two places. Where the order number does not pass the
  Luhn check: user 1 has a balance of 500 and asks for 600 against the number
  2377225625; the call fails with the invalid-number error, not with the
  insufficient-funds error. And for the sign of the balance: user 1 has an accrual of
  0.11 and has withdrawn 0.04; the balance read is 0.07, so a withdrawal of 0.07
  succeeds, and the balance read after it is \<^verbatim>\<open>-1 / 2^56\<close>.
\<close>

theorem WithdrawBalance_insufficient_counterexample:
  "fst (GetUserBalance binary64_arithmetic after_first_tick 1) = Dyadic 500 0 \<and>
   go_greater binary64_arithmetic (Dyadic 600 0)
     (fst (GetUserBalance binary64_arithmetic after_first_tick 1)) \<and>
   WithdrawBalance binary64_arithmetic 1 ''2377225625'' (Dyadic 600 0) after_first_tick =
     (Some ErrInvalidOrderNumber, after_first_tick) \<and>
   WithdrawBalance binary64_arithmetic 1 ''2377225625'' (Dyadic 600 0) after_first_tick \<noteq>
     (Some ErrInsufficientFunds, after_first_tick) \<and>
   fst (GetUserBalance binary64_arithmetic after_small_withdrawal 1) = decimal_0_07 \<and>
   WithdrawBalance binary64_arithmetic 1 ''26'' decimal_0_07 after_small_withdrawal =
     (None, after_two_small_withdrawals) \<and>
   binary64_value (fst (GetUserBalance binary64_arithmetic after_two_small_withdrawals 1)) =
     - 1 / 72057594037927936 \<and>
   binary64_value (fst (GetUserBalance binary64_arithmetic after_two_small_withdrawals 1)) < 0"
  by (simp add: after_first_tick_eq after_small_withdrawal_eq after_two_small_withdrawals_eq
        eval_defs)

theorem WithdrawBalance_insufficient_witness:
  "isValidLuhn ''18'' \<and>
   go_greater binary64_arithmetic (Dyadic 600 0)
     (fst (GetUserBalance binary64_arithmetic after_first_tick 1)) \<and>
   WithdrawBalance binary64_arithmetic 1 ''18'' (Dyadic 600 0) after_first_tick =
     (Some ErrInsufficientFunds, after_first_tick) \<and>
   \<not> isValidLuhn ''2377225625'' \<and>
   WithdrawBalance binary64_arithmetic 1 ''2377225625'' (Dyadic 600 0) after_first_tick =
     (Some ErrInvalidOrderNumber, after_first_tick) \<and>
   \<not> go_greater binary64_arithmetic (Dyadic 200 0)
     (fst (GetUserBalance binary64_arithmetic after_first_tick 1)) \<and>
   WithdrawBalance binary64_arithmetic 1 ''18'' (Dyadic 200 0) after_first_tick =
     (None, \<lparr>orders = orders after_first_tick @ [\<lparr>ID = 3, OrderNumber = ''18'', UserID = 1, Status = ''NEW''\<rparr>],
             next_order_id = 4,
             ledger = ledger after_first_tick @
               [\<lparr>tx_user_id = 1, tx_order_id = Some 3, tx_amount = Dyadic 200 0, tx_type = ''WITHDRAWAL''\<rparr>]\<rparr>)"
  using WithdrawBalance_insufficient [where ar = binary64_arithmetic and n = "''18''"
      and amount = "Dyadic 600 0" and s = after_first_tick and u = 1]
    WithdrawBalance_insufficient [where ar = binary64_arithmetic and n = "''2377225625''"
      and amount = "Dyadic 600 0" and s = after_first_tick and u = 1]
    WithdrawBalance_insufficient [where ar = binary64_arithmetic and n = "''18''"
      and amount = "Dyadic 200 0" and s = after_first_tick and u = 1
      and s' = "\<lparr>orders = orders after_first_tick @ [\<lparr>ID = 3, OrderNumber = ''18'', UserID = 1, Status = ''NEW''\<rparr>],
           next_order_id = 4,
           ledger = ledger after_first_tick @
             [\<lparr>tx_user_id = 1, tx_order_id = Some 3, tx_amount = Dyadic 200 0, tx_type = ''WITHDRAWAL''\<rparr>]\<rparr>"]
  by (simp add: after_first_tick_eq eval_defs)

text \<open>
  Claim C9. \<^verbatim>\<open>isValidLuhn\<close> answers true on the empty string, and \<^verbatim>\<open>WithdrawBalance\<close>
  checks nothing else about the order number before the Luhn check: a withdrawal whose
  order number is the empty string is never answered with the invalid-number error;
  it goes on to the balance check, which alone decides between the insufficient-funds
  error and success.
\<close>

theorem WithdrawBalance_empty_number:
  "isValidLuhn [] \<and>
   fst (WithdrawBalance ar u [] amount s) \<noteq> Some ErrInvalidOrderNumber \<and>
   fst (WithdrawBalance ar u [] amount s) =
     (if go_greater ar amount (fst (GetUserBalance ar s u)) then Some ErrInsufficientFunds
      else None)"
proof -
  have v: "isValidLuhn []" by (simp add: isValidLuhn_def)
  have "fst (WithdrawBalance ar u [] amount s) =
          (if go_greater ar amount (fst (GetUserBalance ar s u)) then Some ErrInsufficientFunds else None)"
    using v by (cases ar u "[] :: string" amount s rule: WithdrawBalance_cases) simp_all
  with v show ?thesis by simp
qed

theorem WithdrawBalance_empty_number_witness:
  "fst (WithdrawBalance binary64_arithmetic 1 [] (Dyadic 600 0) after_first_tick) = Some ErrInsufficientFunds \<and>
   fst (WithdrawBalance binary64_arithmetic 1 [] (Dyadic 200 0) after_first_tick) = None"
  using WithdrawBalance_empty_number [where ar = binary64_arithmetic and u = 1
      and amount = "Dyadic 600 0" and s = after_first_tick]
    WithdrawBalance_empty_number [where ar = binary64_arithmetic and u = 1
      and amount = "Dyadic 200 0" and s = after_first_tick]
  by (simp add: after_first_tick_eq eval_defs)

text \<open>
  Claim C10. \<^verbatim>\<open>WithdrawBalance\<close> looks the order up by its number alone. When a
  withdrawal succeeds and an order with the number exists, whoever owns it, the
  WITHDRAWAL row carries the caller's user id and the identifier of that existing
  order, and the orders table is left as it was. A new order (status NEW, owned by the
  caller) is created, and referenced by the row, only when no order has the number. A
  withdrawal with a number that passes the Luhn check and an amount that is not greater
  than the balance does succeed.
\<close>

theorem WithdrawBalance_order_resolution:
  "(isValidLuhn n \<and> \<not> go_greater ar amount (fst (GetUserBalance ar s u)) \<longrightarrow> fst (WithdrawBalance ar u n amount s) = None) \<and>
   (WithdrawBalance ar u n amount s = (None, s') \<and> GetOrderByNumber s n = Inr x \<longrightarrow>
      s' = s\<lparr>ledger := ledger s @
              [\<lparr>tx_user_id = u, tx_order_id = Some (ID x), tx_amount = amount,
                tx_type = ''WITHDRAWAL''\<rparr>]\<rparr>) \<and>
   (WithdrawBalance ar u n amount s = (None, s') \<and> GetOrderByNumber s n = Inl e \<longrightarrow>
      s' = s\<lparr>orders := orders s @
              [\<lparr>ID = next_order_id s, OrderNumber = n, UserID = u, Status = ''NEW''\<rparr>],
            next_order_id := next_order_id s + 1,
            ledger := ledger s @
              [\<lparr>tx_user_id = u, tx_order_id = Some (next_order_id s), tx_amount = amount,
                tx_type = ''WITHDRAWAL''\<rparr>]\<rparr>) \<and>
   (orders (snd (WithdrawBalance ar u n amount s)) \<noteq> orders s \<longrightarrow>
      GetOrderByNumber s n = Inl ErrNoRows)"
proof (intro conjI impI)
  assume "isValidLuhn n \<and> \<not> go_greater ar amount (fst (GetUserBalance ar s u))"
  then show "fst (WithdrawBalance ar u n amount s) = None"
    by (cases ar u n amount s rule: WithdrawBalance_cases) simp_all
next
  assume "WithdrawBalance ar u n amount s = (None, s') \<and> GetOrderByNumber s n = Inr x"
  then show "s' = s\<lparr>ledger := ledger s @
              [\<lparr>tx_user_id = u, tx_order_id = Some (ID x), tx_amount = amount,
                tx_type = ''WITHDRAWAL''\<rparr>]\<rparr>"
    by (cases ar u n amount s rule: WithdrawBalance_cases) simp_all
next
  assume "WithdrawBalance ar u n amount s = (None, s') \<and> GetOrderByNumber s n = Inl e"
  then show "s' = s\<lparr>orders := orders s @
              [\<lparr>ID = next_order_id s, OrderNumber = n, UserID = u, Status = ''NEW''\<rparr>],
            next_order_id := next_order_id s + 1,
            ledger := ledger s @
              [\<lparr>tx_user_id = u, tx_order_id = Some (next_order_id s), tx_amount = amount,
                tx_type = ''WITHDRAWAL''\<rparr>]\<rparr>"
    by (cases ar u n amount s rule: WithdrawBalance_cases) simp_all
next
  assume "orders (snd (WithdrawBalance ar u n amount s)) \<noteq> orders s"
  then show "GetOrderByNumber s n = Inl ErrNoRows"
    by (cases ar u n amount s rule: WithdrawBalance_cases) simp_all
qed

text \<open>
  The witness: user 2 (balance 500) withdraws 100 against the number of the order of
  user 1; the row is written for user 2 and references order 1. Then user 2 withdraws
  against a number no order has, and an order owned by user 2 is created.
\<close>

theorem WithdrawBalance_order_resolution_witness:
  "GetOrderByNumber after_invalid_tick ''79927398713'' =
     Inr \<lparr>ID = 1, OrderNumber = ''79927398713'', UserID = 1, Status = ''INVALID''\<rparr> \<and>
   WithdrawBalance binary64_arithmetic 2 ''79927398713'' (Dyadic 100 0) after_invalid_tick =
     (None, after_invalid_tick\<lparr>ledger := ledger after_invalid_tick @
        [\<lparr>tx_user_id = 2, tx_order_id = Some 1, tx_amount = Dyadic 100 0, tx_type = ''WITHDRAWAL''\<rparr>]\<rparr>) \<and>
   GetOrderByNumber after_invalid_tick ''18'' = Inl ErrNoRows \<and>
   WithdrawBalance binary64_arithmetic 2 ''18'' (Dyadic 100 0) after_invalid_tick =
     (None, after_invalid_tick\<lparr>orders := orders after_invalid_tick @
              [\<lparr>ID = 3, OrderNumber = ''18'', UserID = 2, Status = ''NEW''\<rparr>],
            next_order_id := 4,
            ledger := ledger after_invalid_tick @
              [\<lparr>tx_user_id = 2, tx_order_id = Some 3, tx_amount = Dyadic 100 0, tx_type = ''WITHDRAWAL''\<rparr>]\<rparr>)"
  using WithdrawBalance_order_resolution [where n = "''79927398713''" and amount = "Dyadic 100 0"
      and s = after_invalid_tick and u = 2
      and x = "\<lparr>ID = 1, OrderNumber = ''79927398713'', UserID = 1, Status = ''INVALID''\<rparr>"
      and s' = "after_invalid_tick\<lparr>ledger := ledger after_invalid_tick @
        [\<lparr>tx_user_id = 2, tx_order_id = Some 1, tx_amount = Dyadic 100 0, tx_type = ''WITHDRAWAL''\<rparr>]\<rparr>"]
    WithdrawBalance_order_resolution [where n = "''18''" and amount = "Dyadic 100 0"
      and s = after_invalid_tick and u = 2 and e = ErrNoRows
      and s' = "after_invalid_tick\<lparr>orders := orders after_invalid_tick @
              [\<lparr>ID = 3, OrderNumber = ''18'', UserID = 2, Status = ''NEW''\<rparr>],
            next_order_id := 4,
            ledger := ledger after_invalid_tick @
              [\<lparr>tx_user_id = 2, tx_order_id = Some 3, tx_amount = Dyadic 100 0, tx_type = ''WITHDRAWAL''\<rparr>]\<rparr>"]
  by (simp add: after_invalid_tick_eq eval_defs)

section \<open>Properties of order submission\<close>

text \<open>
  Claim C7. \<^verbatim>\<open>UploadOrder\<close> trims the input. An empty trimmed input is a format
  error; a trimmed input with a byte that is not a decimal digit, or one that fails
  the Luhn check, is an invalid-number error; in these cases the answer does not depend
  on the store and the store is left as it was. When an order with the trimmed number
  exists, the answer is "already uploaded by this user" if its owner is the caller and
  "uploaded by another user" otherwise, and the store (so also the existing order and
  its owner) is left as it was. Otherwise the call succeeds and appends one order with
  the trimmed number, the caller as owner and status NEW.
\<close>

theorem UploadOrder_outcomes:
  "(TrimSpace n = [] \<longrightarrow> UploadOrder TrimSpace n u s = (Some ErrInvalidOrderFormat, s)) \<and>
   (TrimSpace n \<noteq> [] \<and> (\<not> list_all is_digit (TrimSpace n) \<or> \<not> isValidLuhn (TrimSpace n)) \<longrightarrow>
      UploadOrder TrimSpace n u s = (Some ErrInvalidOrderNumber, s)) \<and>
   (TrimSpace n \<noteq> [] \<and> list_all is_digit (TrimSpace n) \<and> isValidLuhn (TrimSpace n) \<and>
    GetOrderByNumber s (TrimSpace n) = Inr x \<longrightarrow>
      UploadOrder TrimSpace n u s =
        (Some (if UserID x = u then ErrOrderAlreadyUploadedByUser
               else ErrOrderAlreadyUploadedByAnother), s)) \<and>
   (TrimSpace n \<noteq> [] \<and> list_all is_digit (TrimSpace n) \<and> isValidLuhn (TrimSpace n) \<and>
    GetOrderByNumber s (TrimSpace n) = Inl e \<longrightarrow>
      UploadOrder TrimSpace n u s =
        (None, s\<lparr>orders := orders s @
                   [\<lparr>ID = next_order_id s, OrderNumber = TrimSpace n, UserID = u, Status = ''NEW''\<rparr>],
                 next_order_id := next_order_id s + 1\<rparr>))"
proof -
  have dig: "list_ex (\<lambda>c. (of_char c :: nat) < 48 \<or> (of_char c :: nat) > 57) m = (\<not> list_all is_digit m)" for m
    by (induction m) (auto simp: is_digit_def)
  show ?thesis
  proof (intro conjI impI)
    assume "TrimSpace n \<noteq> [] \<and> list_all is_digit (TrimSpace n) \<and> isValidLuhn (TrimSpace n) \<and>
      GetOrderByNumber s (TrimSpace n) = Inl e"
    moreover from this have "\<not> list_ex (\<lambda>x. OrderNumber x = TrimSpace n) (orders s)"
      using GetOrderByNumber_Inl by blast
    ultimately show "UploadOrder TrimSpace n u s =
        (None, s\<lparr>orders := orders s @
                   [\<lparr>ID = next_order_id s, OrderNumber = TrimSpace n, UserID = u, Status = ''NEW''\<rparr>],
                 next_order_id := next_order_id s + 1\<rparr>)"
      by (simp add: UploadOrder_def Let_def dig CreateOrder_fresh(1))
  qed (auto simp: UploadOrder_def Let_def dig)
qed

theorem UploadOrder_outcomes_witness:
  "UploadOrder trim_ascii ''   '' 1 after_invalid_tick = (Some ErrInvalidOrderFormat, after_invalid_tick) \<and>
   UploadOrder trim_ascii '' 7992739871x'' 1 after_invalid_tick = (Some ErrInvalidOrderNumber, after_invalid_tick) \<and>
   UploadOrder trim_ascii ''79927398714'' 1 after_invalid_tick = (Some ErrInvalidOrderNumber, after_invalid_tick) \<and>
   UploadOrder trim_ascii '' 79927398713 '' 1 after_invalid_tick = (Some ErrOrderAlreadyUploadedByUser, after_invalid_tick) \<and>
   UploadOrder trim_ascii '' 79927398713 '' 2 after_invalid_tick = (Some ErrOrderAlreadyUploadedByAnother, after_invalid_tick) \<and>
   UploadOrder trim_ascii ''18 '' 2 after_invalid_tick =
     (None, after_invalid_tick\<lparr>orders := orders after_invalid_tick @
              [\<lparr>ID = 3, OrderNumber = ''18'', UserID = 2, Status = ''NEW''\<rparr>],
            next_order_id := 4\<rparr>)"
  using UploadOrder_outcomes [where TrimSpace = trim_ascii and n = "''   ''" and u = 1 and s = after_invalid_tick]
    UploadOrder_outcomes [where TrimSpace = trim_ascii and n = "'' 7992739871x''" and u = 1 and s = after_invalid_tick]
    UploadOrder_outcomes [where TrimSpace = trim_ascii and n = "''79927398714''" and u = 1 and s = after_invalid_tick]
    UploadOrder_outcomes [where TrimSpace = trim_ascii and n = "'' 79927398713 ''" and u = 1 and s = after_invalid_tick
      and x = "\<lparr>ID = 1, OrderNumber = ''79927398713'', UserID = 1, Status = ''INVALID''\<rparr>"]
    UploadOrder_outcomes [where TrimSpace = trim_ascii and n = "'' 79927398713 ''" and u = 2 and s = after_invalid_tick
      and x = "\<lparr>ID = 1, OrderNumber = ''79927398713'', UserID = 1, Status = ''INVALID''\<rparr>"]
    UploadOrder_outcomes [where TrimSpace = trim_ascii and n = "''18 ''" and u = 2 and s = after_invalid_tick and e = ErrNoRows]
  by (simp add: after_invalid_tick_eq eval_defs is_digit_def)

section \<open>Further lemmas about a worker cycle\<close>

lemma foldl_process_sets_status:
  assumes "distinct (map ID L)" "x \<in> set L" "x \<in> set (orders s)" "written_status c a x = Some st"
  shows "x\<lparr>Status := st\<rparr> \<in> set (orders (foldl (\<lambda>s1 x. process_order c a x s1) s L))"
  using assms
proof (induction L arbitrary: s)
  case Nil
  then show ?case by simp
next
  case (Cons x' L)
  from Cons.prems(1) have d: "distinct (map ID L)" and nx: "ID x' \<notin> ID ` set L" by simp_all
  show ?case
  proof (cases "x' = x")
    case True
    have others: "list_all (\<lambda>z. ID z \<noteq> ID (x\<lparr>Status := st\<rparr>)) L"
      using nx True by (simp add: list_all_iff) (metis imageI)
    have "x\<lparr>Status := st\<rparr> \<in> set (orders (process_order c a x s))"
      using Cons.prems(3,4) by (simp add: set_status_def)
    from foldl_process_keeps [OF this others] True show ?thesis by simp
  next
    case False
    with Cons.prems(2) have xL: "x \<in> set L" by simp
    with nx have "ID x \<noteq> ID x'" by (metis imageI)
    with Cons.prems(3) have "x \<in> set (orders (process_order c a x' s))"
      by (simp add: set_status_other)
    from Cons.IH [OF d xL this Cons.prems(4)] show ?thesis by simp
  qed
qed

lemma cycle_sets_status:
  assumes "wf_store s" "x \<in> set (GetOrdersForStatusUpdate s)" "written_status c a x = Some st"
  shows "x\<lparr>Status := st\<rparr> \<in> set (orders (worker_cycle c a s))"
proof -
  from assms(1) have d: "distinct (map ID (GetOrdersForStatusUpdate s))"
    by (simp add: wf_store_def GetOrdersForStatusUpdate_def distinct_map_filter)
  from assms(2) have "x \<in> set (orders s)"
    by (simp add: GetOrdersForStatusUpdate_def)
  from foldl_process_sets_status [OF d assms(2) this assms(3)] show ?thesis
    by (simp add: worker_cycle_def)
qed

lemma credit_rows_owner:
  "list_all (\<lambda>x. UserID x \<noteq> u) L \<Longrightarrow>
   filter (\<lambda>t. tx_user_id t = u) (concat (map (credit_rows c a) L)) = []"
proof (induction L)
  case Nil
  then show ?case by simp
next
  case (Cons x L)
  then have "filter (\<lambda>t. tx_user_id t = u) (credit_rows c a x) = []"
    using credit_rows_cases [of c a x] by auto
  with Cons show ?case by simp
qed

lemma cycle_balance_unchanged:
  assumes "list_all (\<lambda>x. UserID x \<noteq> u) (GetOrdersForStatusUpdate s)"
  shows "GetUserBalance ar (worker_cycle c a s) u = GetUserBalance ar s u"
  by (simp add: GetUserBalance_def worker_cycle_def foldl_process_sel(1) credit_rows_owner [OF assms])

lemma step_keeps_rows:
  assumes "\<And>c. e \<noteq> Tick c" "y \<in> set (orders s)"
  shows "y \<in> set (orders (step ar T a e s))"
proof (cases ar T a e s rule: step_shape)
  case (tick c)
  with assms(1) show ?thesis by blast
qed (use assms(2) in simp_all)

lemma settled_no_accruals:
  assumes "accrual_inv s" "y \<in> set (orders s)" "Status y \<noteq> ''PROCESSED''"
  shows "accruals_of s (ID y) = []"
  using assms unfolding accrual_inv_def by blast

section \<open>Properties of the reconciliation worker\<close>

text \<open>
  Claim C2. When the accrual service answers the worker's request for an order with
  status 200 and a body that decodes, the worker writes exactly the reported status
  string to the order with that identifier, whatever the string is, and appends one
  ACCRUAL row for the order's owner with the reported amount if the reported status
  is PROCESSED and the accrual is present, and no row otherwise. For an order the
  scan returns (a non-terminal order), the order carries the reported status after
  the cycle.
\<close>

theorem worker_applies_reply:
  "client (order_url a (OrderNumber x)) = HTTPResponse 200 (Some r) \<longrightarrow>
     orders (process_order client a x s) =
       map (\<lambda>y. if ID y = ID x then y\<lparr>Status := resp_Status r\<rparr> else y) (orders s) \<and>
     (resp_Status r = ''PROCESSED'' \<and> resp_Accrual r = Some amt \<longrightarrow>
        ledger (process_order client a x s) =
          ledger s @ [\<lparr>tx_user_id = UserID x, tx_order_id = Some (ID x), tx_amount = amt,
                       tx_type = ''ACCRUAL''\<rparr>]) \<and>
     (resp_Status r \<noteq> ''PROCESSED'' \<or> resp_Accrual r = None \<longrightarrow>
        ledger (process_order client a x s) = ledger s) \<and>
     (wf_store s \<and> x \<in> set (GetOrdersForStatusUpdate s) \<longrightarrow>
        x\<lparr>Status := resp_Status r\<rparr> \<in> set (orders (worker_cycle client a s)))"
proof (intro impI)
  assume rep: "client (order_url a (OrderNumber x)) = HTTPResponse 200 (Some r)"
  then have w: "written_status client a x = Some (resp_Status r)"
    by (simp add: written_status_def)
  have 1: "orders (process_order client a x s) =
       map (\<lambda>y. if ID y = ID x then y\<lparr>Status := resp_Status r\<rparr> else y) (orders s)"
    by (simp add: w set_status_def)
  have 2: "ledger (process_order client a x s) =
          ledger s @ [\<lparr>tx_user_id = UserID x, tx_order_id = Some (ID x), tx_amount = amt,
                       tx_type = ''ACCRUAL''\<rparr>]"
    if "resp_Status r = ''PROCESSED'' \<and> resp_Accrual r = Some amt"
    using that rep by (simp add: credit_rows_def)
  have 3: "ledger (process_order client a x s) = ledger s"
    if "resp_Status r \<noteq> ''PROCESSED'' \<or> resp_Accrual r = None"
    using that rep by (auto simp: credit_rows_def split: option.splits)
  have 4: "x\<lparr>Status := resp_Status r\<rparr> \<in> set (orders (worker_cycle client a s))"
    if "wf_store s \<and> x \<in> set (GetOrdersForStatusUpdate s)"
    using that w by (simp add: cycle_sets_status)
  from 1 2 3 4 show "orders (process_order client a x s) =
       map (\<lambda>y. if ID y = ID x then y\<lparr>Status := resp_Status r\<rparr> else y) (orders s) \<and>
     (resp_Status r = ''PROCESSED'' \<and> resp_Accrual r = Some amt \<longrightarrow>
        ledger (process_order client a x s) =
          ledger s @ [\<lparr>tx_user_id = UserID x, tx_order_id = Some (ID x), tx_amount = amt,
                       tx_type = ''ACCRUAL''\<rparr>]) \<and>
     (resp_Status r \<noteq> ''PROCESSED'' \<or> resp_Accrual r = None \<longrightarrow>
        ledger (process_order client a x s) = ledger s) \<and>
     (wf_store s \<and> x \<in> set (GetOrdersForStatusUpdate s) \<longrightarrow>
        x\<lparr>Status := resp_Status r\<rparr> \<in> set (orders (worker_cycle client a s)))"
    by blast
qed

text \<open>
  The witness: the second tick of the scenario credits 300 for order 2; a reply
  PROCESSING without accrual for the same order writes the status and no row.
\<close>

theorem worker_applies_reply_witness:
  "second_tick_client (order_url ''http://accrual'' ''2377225624'') =
     HTTPResponse 200 (Some \<lparr>resp_Order = ''2377225624'', resp_Status = ''PROCESSED'', resp_Accrual = Some (Dyadic 300 0)\<rparr>) \<and>
   wf_store after_first_tick \<and>
   \<lparr>ID = 2, OrderNumber = ''2377225624'', UserID = 1, Status = ''NEW''\<rparr> \<in> set (GetOrdersForStatusUpdate after_first_tick) \<and>
   \<lparr>ID = 2, OrderNumber = ''2377225624'', UserID = 1, Status = ''PROCESSED''\<rparr> \<in>
      set (orders (worker_cycle second_tick_client ''http://accrual'' after_first_tick)) \<and>
   ledger (process_order second_tick_client ''http://accrual''
             \<lparr>ID = 2, OrderNumber = ''2377225624'', UserID = 1, Status = ''NEW''\<rparr> after_first_tick) =
     ledger after_first_tick @ [\<lparr>tx_user_id = 1, tx_order_id = Some 2, tx_amount = Dyadic 300 0, tx_type = ''ACCRUAL''\<rparr>] \<and>
   ledger (process_order (answer_one ''2377225624'' (reply_status ''2377225624'' ''PROCESSING'' None)) ''http://accrual''
             \<lparr>ID = 2, OrderNumber = ''2377225624'', UserID = 1, Status = ''NEW''\<rparr> after_first_tick) =
     ledger after_first_tick"
  using worker_applies_reply [where client = second_tick_client and a = "''http://accrual''"
      and x = "\<lparr>ID = 2, OrderNumber = ''2377225624'', UserID = 1, Status = ''NEW''\<rparr>"
      and r = "\<lparr>resp_Order = ''2377225624'', resp_Status = ''PROCESSED'', resp_Accrual = Some (Dyadic 300 0)\<rparr>"
      and amt = "Dyadic 300 0" and s = after_first_tick]
    worker_applies_reply [where client = "answer_one ''2377225624'' (reply_status ''2377225624'' ''PROCESSING'' None)"
      and a = "''http://accrual''"
      and x = "\<lparr>ID = 2, OrderNumber = ''2377225624'', UserID = 1, Status = ''NEW''\<rparr>"
      and r = "\<lparr>resp_Order = ''2377225624'', resp_Status = ''PROCESSING'', resp_Accrual = None\<rparr>"
      and s = after_first_tick]
  by (simp add: second_tick_client_def after_first_tick_eq wf_store_def eval_defs)

text \<open>
  Claim C1, as amended. The scan returns only orders whose status is NEW or
  PROCESSING. In every store reached from the empty one by uploads, withdrawals and
  worker ticks, every order has at most one ACCRUAL row. Once an order is PROCESSED or
  INVALID, whatever operations follow, no scan returns it again, its row stays as it
  is (so its status does not change), and the ACCRUAL rows that reference it stay as
  they are. A later cycle leaves its owner's balance unchanged when the owner has no
  other order that is still NEW or PROCESSING.
\<close>

theorem settled_order_not_reprocessed:
  "list_all (\<lambda>x. Status x = ''NEW'' \<or> Status x = ''PROCESSING'') (GetOrdersForStatusUpdate sa) \<and>
   length (accruals_of (run ar T a esa empty_store) i) \<le> 1 \<and>
   (wf_store s \<and> y \<in> set (orders s) \<and> (Status y = ''PROCESSED'' \<or> Status y = ''INVALID'') \<longrightarrow>
      y \<in> set (orders (run ar T a es s)) \<and>
      y \<notin> set (GetOrdersForStatusUpdate (run ar T a es s)) \<and>
      list_all (\<lambda>x. ID x \<noteq> ID y) (GetOrdersForStatusUpdate (run ar T a es s)) \<and>
      accruals_of (run ar T a es s) (ID y) = accruals_of s (ID y) \<and>
      (list_all (\<lambda>x. UserID x \<noteq> UserID y) (GetOrdersForStatusUpdate (run ar T a es s)) \<longrightarrow>
         GetUserBalance ar (worker_cycle c a (run ar T a es s)) (UserID y) =
         GetUserBalance ar (run ar T a es s) (UserID y)))"
proof (intro conjI impI)
  show "list_all (\<lambda>x. Status x = ''NEW'' \<or> Status x = ''PROCESSING'') (GetOrdersForStatusUpdate sa)"
    by (simp add: GetOrdersForStatusUpdate_def list_all_iff)
next
  have "accrual_inv (run ar T a esa empty_store)"
    by (simp add: accrual_inv_run accrual_inv_empty)
  then show "length (accruals_of (run ar T a esa empty_store) i) \<le> 1"
    by (simp add: accrual_inv_def)
next
  assume h: "wf_store s \<and> y \<in> set (orders s) \<and> (Status y = ''PROCESSED'' \<or> Status y = ''INVALID'')"
  then have wf: "wf_store s" and y: "y \<in> set (orders s)"
    and st: "Status y \<noteq> ''NEW''" "Status y \<noteq> ''PROCESSING''"
    by auto
  from run_keeps_settled [OF wf y st, where ar = ar and T = T and a = a and es = es]
  show y': "y \<in> set (orders (run ar T a es s))"
    and "accruals_of (run ar T a es s) (ID y) = accruals_of s (ID y)"
    by simp_all
  show "y \<notin> set (GetOrdersForStatusUpdate (run ar T a es s))"
    using st by (simp add: GetOrdersForStatusUpdate_def)
  show "list_all (\<lambda>x. ID x \<noteq> ID y) (GetOrdersForStatusUpdate (run ar T a es s))"
    using scan_ids_differ [OF wf_store_run [OF wf] y' st] .
next
  assume "list_all (\<lambda>x. UserID x \<noteq> UserID y) (GetOrdersForStatusUpdate (run ar T a es s))"
  then show "GetUserBalance ar (worker_cycle c a (run ar T a es s)) (UserID y) =
         GetUserBalance ar (run ar T a es s) (UserID y)"
    by (rule cycle_balance_unchanged)
qed

text \<open>
  The claim as stated fails for the owner's balance: user 1 owns two orders; the first
  tick sets order 1 to PROCESSED and credits 500; the second tick credits 300 for
  order 2, so a later cycle changes the balance of the owner of order 1 from 500 to
  800.
\<close>

theorem settled_order_not_reprocessed_counterexample:
  "GetOrderByNumber after_first_tick ''79927398713'' =
     Inr \<lparr>ID = 1, OrderNumber = ''79927398713'', UserID = 1, Status = ''PROCESSED''\<rparr> \<and>
   GetUserBalance binary64_arithmetic after_first_tick 1 = (Dyadic 500 0, Dyadic 0 0) \<and>
   GetUserBalance binary64_arithmetic (worker_cycle second_tick_client ''http://accrual'' after_first_tick) 1 = (Dyadic 800 0, Dyadic 0 0) \<and>
   GetUserBalance binary64_arithmetic (worker_cycle second_tick_client ''http://accrual'' after_first_tick) 1 \<noteq>
     GetUserBalance binary64_arithmetic after_first_tick 1"
  by (simp add: after_first_tick_eq second_tick_client_def eval_defs)

theorem settled_order_not_reprocessed_witness:
  "wf_store after_first_tick \<and>
   \<lparr>ID = 1, OrderNumber = ''79927398713'', UserID = 1, Status = ''PROCESSED''\<rparr> \<in> set (orders after_first_tick) \<and>
   \<lparr>ID = 1, OrderNumber = ''79927398713'', UserID = 1, Status = ''PROCESSED''\<rparr> \<in> set (orders after_second_tick) \<and>
   GetOrdersForStatusUpdate after_second_tick = [] \<and>
   accruals_of after_second_tick 1 = accruals_of after_first_tick 1 \<and>
   length (accruals_of after_second_tick 1) = 1 \<and>
   GetUserBalance binary64_arithmetic (worker_cycle second_tick_client ''http://accrual'' after_second_tick) 1 = (Dyadic 800 0, Dyadic 0 0)"
  using settled_order_not_reprocessed [where T = trim_ascii and a = "''http://accrual''"
      and s = after_first_tick and es = "[Tick second_tick_client]"
      and y = "\<lparr>ID = 1, OrderNumber = ''79927398713'', UserID = 1, Status = ''PROCESSED''\<rparr>"
      and c = second_tick_client and sa = after_first_tick and esa = "[]" and i = 1]
  by (simp add: after_second_tick_eq after_first_tick_eq second_tick_client_def wf_store_def
        accruals_of_def eval_defs)

text \<open>
  Claim C3, as amended. When the accrual service has no content (204) for an order,
  the worker's step writes INVALID to the order with that identifier and writes
  nothing to the ledger. For an order the scan returned in a store reached from the
  empty one, the order is INVALID after the cycle and stays so, and no ACCRUAL row
  referencing it exists after the cycle or after any operations that follow. (A
  withdrawal naming the order's number still writes a WITHDRAWAL row that references
  it.)
\<close>

theorem no_content_marks_invalid:
  "client (order_url a (OrderNumber x)) = HTTPResponse 204 body \<longrightarrow>
     ledger (process_order client a x sb) = ledger sb \<and>
     orders (process_order client a x sb) =
       map (\<lambda>y. if ID y = ID x then y\<lparr>Status := ''INVALID''\<rparr> else y) (orders sb) \<and>
     (x \<in> set (GetOrdersForStatusUpdate (run ar T a es empty_store)) \<longrightarrow>
        x\<lparr>Status := ''INVALID''\<rparr> \<in>
          set (orders (run ar T a es' (worker_cycle client a (run ar T a es empty_store)))) \<and>
        accruals_of (run ar T a es' (worker_cycle client a (run ar T a es empty_store))) (ID x) = [])"
proof (intro impI conjI)
  assume rep: "client (order_url a (OrderNumber x)) = HTTPResponse 204 body"
  then have w: "written_status client a x = Some ''INVALID''"
    by (simp add: written_status_def)
  from rep have cr: "credit_rows client a x = []"
    by (simp add: credit_rows_def split: option.splits)
  show "ledger (process_order client a x sb) = ledger sb"
    by (simp add: cr)
  show "orders (process_order client a x sb) =
       map (\<lambda>y. if ID y = ID x then y\<lparr>Status := ''INVALID''\<rparr> else y) (orders sb)"
    by (simp add: w set_status_def)
  assume scan: "x \<in> set (GetOrdersForStatusUpdate (run ar T a es empty_store))"
  let ?s = "run ar T a es empty_store"
  let ?s' = "worker_cycle client a ?s"
  let ?x = "x\<lparr>Status := ''INVALID''\<rparr>"
  have inv: "accrual_inv ?s"
    by (simp add: accrual_inv_run accrual_inv_empty)
  then have wf: "wf_store ?s" by (simp add: accrual_inv_def)
  have inv': "accrual_inv ?s'"
    using inv by (rule accrual_inv_cycle)
  have x': "?x \<in> set (orders ?s')"
    using wf scan w by (rule cycle_sets_status)
  have none: "accruals_of ?s' (ID ?x) = []"
    using inv' x' by (rule settled_no_accruals) simp
  from run_keeps_settled [OF wf_store_cycle [OF wf] x', where ar = ar and T = T and a = a and es = es']
  have "?x \<in> set (orders (run ar T a es' ?s')) \<and>
        accruals_of (run ar T a es' ?s') (ID ?x) = accruals_of ?s' (ID ?x)"
    by simp
  with none show "?x \<in> set (orders (run ar T a es' ?s'))"
    and "accruals_of (run ar T a es' ?s') (ID x) = []"
    by simp_all
qed

text \<open>
  The claim as stated fails for WITHDRAWAL rows: order 1 of user 1 is INVALID after
  the tick; user 2 then withdraws 100 against its number, and a ledger row that
  references order 1 is written.
\<close>

theorem no_content_marks_invalid_counterexample:
  "\<lparr>ID = 1, OrderNumber = ''79927398713'', UserID = 1, Status = ''NEW''\<rparr> \<in>
     set (GetOrdersForStatusUpdate two_users_uploaded) \<and>
   invalid_and_credited_client (order_url ''http://accrual'' ''79927398713'') = HTTPResponse 204 None \<and>
   GetOrderByNumber after_invalid_tick ''79927398713'' =
     Inr \<lparr>ID = 1, OrderNumber = ''79927398713'', UserID = 1, Status = ''INVALID''\<rparr> \<and>
   WithdrawBalance binary64_arithmetic 2 ''79927398713'' (Dyadic 100 0) after_invalid_tick =
     (None, after_invalid_tick\<lparr>ledger := ledger after_invalid_tick @
        [\<lparr>tx_user_id = 2, tx_order_id = Some 1, tx_amount = Dyadic 100 0, tx_type = ''WITHDRAWAL''\<rparr>]\<rparr>)"
  by (simp add: two_users_uploaded_eq after_invalid_tick_eq invalid_and_credited_client_def eval_defs)

theorem no_content_marks_invalid_witness:
  "invalid_and_credited_client (order_url ''http://accrual'' ''79927398713'') = HTTPResponse 204 None \<and>
   \<lparr>ID = 1, OrderNumber = ''79927398713'', UserID = 1, Status = ''NEW''\<rparr> \<in>
     set (GetOrdersForStatusUpdate two_users_uploaded) \<and>
   ledger (process_order invalid_and_credited_client ''http://accrual''
      \<lparr>ID = 1, OrderNumber = ''79927398713'', UserID = 1, Status = ''NEW''\<rparr> two_users_uploaded) = [] \<and>
   \<lparr>ID = 1, OrderNumber = ''79927398713'', UserID = 1, Status = ''INVALID''\<rparr> \<in>
     set (orders (run binary64_arithmetic trim_ascii ''http://accrual'' [Withdraw 2 ''79927398713'' (Dyadic 100 0)] after_invalid_tick)) \<and>
   accruals_of (run binary64_arithmetic trim_ascii ''http://accrual'' [Withdraw 2 ''79927398713'' (Dyadic 100 0)] after_invalid_tick) 1 = []"
  using no_content_marks_invalid [where client = invalid_and_credited_client and a = "''http://accrual''"
      and x = "\<lparr>ID = 1, OrderNumber = ''79927398713'', UserID = 1, Status = ''NEW''\<rparr>"
      and body = None and sb = two_users_uploaded and T = trim_ascii
      and es = "[Upload ''79927398713'' 1, Upload ''2377225624'' 2]"
      and es' = "[Withdraw 2 ''79927398713'' (Dyadic 100 0)]"]
  by (simp add: two_users_uploaded_eq after_invalid_tick_eq invalid_and_credited_client_def
        accruals_of_def eval_defs)

text \<open>
  Claim C4, as amended. A status changes only in a worker tick and only for an order
  whose status is NEW or PROCESSING: every other operation, and every tick for every
  other order, leaves the row as it is. So an order that is PROCESSED or INVALID keeps
  that status through every sequence of operations and never moves back to a
  non-terminal status. For an order that is NEW or PROCESSING the worker writes the
  status the accrual service reports, whichever it is.
\<close>

theorem status_changes_only_from_nonterminal:
  "(wf_store s \<and> y \<in> set (orders s) \<and> y \<notin> set (orders (step ar T a e s)) \<longrightarrow>
      (Status y = ''NEW'' \<or> Status y = ''PROCESSING'') \<and> (\<exists>c. e = Tick c)) \<and>
   (wf_store s \<and> y \<in> set (orders s) \<and> (Status y = ''PROCESSED'' \<or> Status y = ''INVALID'') \<longrightarrow>
      y \<in> set (orders (run ar T a es s)))"
proof (intro conjI impI)
  assume h: "wf_store s \<and> y \<in> set (orders s) \<and> y \<notin> set (orders (step ar T a e s))"
  show "Status y = ''NEW'' \<or> Status y = ''PROCESSING''"
  proof (rule ccontr)
    assume "\<not> (Status y = ''NEW'' \<or> Status y = ''PROCESSING'')"
    then have "Status y \<noteq> ''NEW''" "Status y \<noteq> ''PROCESSING''" by simp_all
    with h step_keeps_settled [where s = s and y = y and ar = ar and T = T and a = a and e = e] show False by blast
  qed
  show "\<exists>c. e = Tick c"
  proof (rule ccontr)
    assume "\<not> (\<exists>c. e = Tick c)"
    then have "\<And>c. e \<noteq> Tick c" by simp
    from step_keeps_rows [OF this, where y = y and s = s and ar = ar and T = T and a = a] h show False by blast
  qed
next
  assume h: "wf_store s \<and> y \<in> set (orders s) \<and> (Status y = ''PROCESSED'' \<or> Status y = ''INVALID'')"
  then have "Status y \<noteq> ''NEW''" "Status y \<noteq> ''PROCESSING''" by auto
  with h run_keeps_settled [where s = s and y = y and ar = ar and T = T and a = a and es = es] show "y \<in> set (orders (run ar T a es s))" by blast
qed

text \<open>
  The claim as stated fails between the non-terminal statuses: the order is PROCESSING
  after the first tick; in the next tick the service reports NEW, and the worker
  writes NEW.
\<close>

theorem status_changes_only_from_nonterminal_counterexample:
  "GetOrderByNumber in_processing ''79927398713'' =
     Inr \<lparr>ID = 1, OrderNumber = ''79927398713'', UserID = 1, Status = ''PROCESSING''\<rparr> \<and>
   GetOrderByNumber
     (worker_cycle (answer_one ''79927398713'' (reply_status ''79927398713'' ''NEW'' None))
        ''http://accrual'' in_processing) ''79927398713'' =
     Inr \<lparr>ID = 1, OrderNumber = ''79927398713'', UserID = 1, Status = ''NEW''\<rparr>"
  by (simp add: in_processing_eq eval_defs)

theorem status_changes_only_from_nonterminal_witness:
  "wf_store in_processing \<and>
   \<lparr>ID = 1, OrderNumber = ''79927398713'', UserID = 1, Status = ''PROCESSING''\<rparr> \<in> set (orders in_processing) \<and>
   \<lparr>ID = 1, OrderNumber = ''79927398713'', UserID = 1, Status = ''PROCESSING''\<rparr> \<notin>
     set (orders (step binary64_arithmetic trim_ascii ''http://accrual''
        (Tick (answer_one ''79927398713'' (reply_status ''79927398713'' ''NEW'' None))) in_processing)) \<and>
   wf_store after_first_tick \<and>
   \<lparr>ID = 1, OrderNumber = ''79927398713'', UserID = 1, Status = ''PROCESSED''\<rparr> \<in> set (orders after_first_tick) \<and>
   \<lparr>ID = 1, OrderNumber = ''79927398713'', UserID = 1, Status = ''PROCESSED''\<rparr> \<in>
     set (orders (run binary64_arithmetic trim_ascii ''http://accrual''
        [Tick (answer_one ''79927398713'' (reply_status ''79927398713'' ''NEW'' None)),
         Withdraw 1 ''79927398713'' (Dyadic 100 0), Upload ''79927398713'' 2] after_first_tick))"
  using status_changes_only_from_nonterminal [where s = in_processing and T = trim_ascii
      and a = "''http://accrual''"
      and y = "\<lparr>ID = 1, OrderNumber = ''79927398713'', UserID = 1, Status = ''PROCESSING''\<rparr>"
      and e = "Tick (answer_one ''79927398713'' (reply_status ''79927398713'' ''NEW'' None))"]
    status_changes_only_from_nonterminal [where s = after_first_tick and T = trim_ascii
      and a = "''http://accrual''"
      and y = "\<lparr>ID = 1, OrderNumber = ''79927398713'', UserID = 1, Status = ''PROCESSED''\<rparr>"
      and es = "[Tick (answer_one ''79927398713'' (reply_status ''79927398713'' ''NEW'' None)),
         Withdraw 1 ''79927398713'' (Dyadic 100 0), Upload ''79927398713'' 2]"]
  by (simp add: in_processing_eq after_first_tick_eq wf_store_def eval_defs)

end
